theory Spec2Isabelle
  imports Main
begin


section \<open>Gitpod task terminals: the data model\<close>

text \<open>
  The development embeds \<^verbatim>\<open>gitpod-task-contribution.ts\<close>. A task arrives from the task
  server; a terminal widget is an object of the terminal subsystem. Widgets are mutable
  objects shared between the registry map, the subsystem and the closures of the event
  handlers, so they live in a store and are referred to by address.
\<close>

subsection \<open>Tasks\<close>

text \<open>
  Modelled from the spec: the declarations of \<^verbatim>\<open>GitpodTaskState\<close> and \<^verbatim>\<open>GitpodTask\<close>
  (\<^verbatim>\<open>../common/gitpod-task-protocol\<close>) are not among the sources. The spec gives the
  three lifecycle states and the fields; the source reads \<^verbatim>\<open>task.id\<close>, \<^verbatim>\<open>task.state\<close>,
  \<^verbatim>\<open>task.terminal\<close> and, through a non-null assertion, \<^verbatim>\<open>task.presentation\<close>, which is
  therefore optional. The remote session id is "present once the task has something to
  attach to", hence optional too. The field \<^verbatim>\<open>id\<close> is \<open>task_id\<close> here.
\<close>

datatype GitpodTaskState = OPENING | RUNNING | CLOSED

record Presentation =
  name :: string
  openIn :: "string option"
  openMode :: "string option"

record GitpodTask =
  task_id :: string
  state :: GitpodTaskState
  terminal :: "string option"
  presentation :: "Presentation option"

subsection \<open>Terminal widgets\<close>

type_synonym addr = nat

text \<open>
  The fields of a terminal widget that the source reads or writes: \<^verbatim>\<open>id\<close> (here
  \<open>widget_id\<close>), \<^verbatim>\<open>kind\<close>, \<^verbatim>\<open>remoteTerminal\<close> (the attach latch), \<^verbatim>\<open>terminalId\<close> (the
  backing session, absent before the first start), whether the widget has been disposed,
  and whether the two callbacks of \<^verbatim>\<open>init\<close> (lines 50 to 59) have been registered on it.
  The options of \<^verbatim>\<open>newTerminal\<close> are all optional.
\<close>

record TerminalWidget =
  widget_id :: string
  kind :: "string option"
  remoteTerminal :: "string option"
  terminalId :: "int option"
  isDisposed :: bool
  subscribed :: bool

record TerminalWidgetOptions =
  opt_id :: "string option"
  opt_kind :: "string option"
  opt_title :: "string option"
  opt_useServerTitle :: "bool option"

subsection \<open>JavaScript values\<close>

text \<open>
  A condition on an optional string is true when the string is present and not empty;
  \<^verbatim>\<open>a || d\<close> is \<^verbatim>\<open>a\<close> in that case and \<^verbatim>\<open>d\<close> otherwise; a template literal prints an
  absent value as \<^verbatim>\<open>undefined\<close>.
\<close>

fun truthy :: "string option \<Rightarrow> bool" where
  "truthy None = False"
| "truthy (Some s) = (s \<noteq> [])"

fun js_or :: "string option \<Rightarrow> string \<Rightarrow> string" where
  "js_or None d = d"
| "js_or (Some s) d = (if s = [] then d else s)"

fun js_template :: "string option \<Rightarrow> string" where
  "js_template None = ''undefined''"
| "js_template (Some s) = s"

text \<open>
  \<^verbatim>\<open>s.split(c)\<close> for a one-character separator: the pieces between the separators, one
  more than there are separators.
\<close>

fun split :: "char \<Rightarrow> string \<Rightarrow> string list" where
  "split c [] = [[]]"
| "split c (x # xs) =
     (if x = c then [] # split c xs
      else (case split c xs of
              [] \<Rightarrow> [[x]]
            | p # ps \<Rightarrow> (x # p) # ps))"

section \<open>The namespace GitpodTaskTerminalWidget\<close>

text \<open>Lines 19 to 30; the type guard \<^verbatim>\<open>is\<close> is \<open>is_task_terminal\<close> here.\<close>

definition idPrefix :: string where
  "idPrefix = ''gitpod-task-terminal''"

definition is_task_terminal :: "TerminalWidget \<Rightarrow> bool" where
  "is_task_terminal t = (kind t = Some ''gitpod-task'')"

definition toTerminalId :: "string \<Rightarrow> string" where
  "toTerminalId i = idPrefix @ '':'' @ i"

text \<open>
  \<^verbatim>\<open>terminal.id.split(':')[1]\<close>; reading an array past its end gives \<^verbatim>\<open>undefined\<close>,
  which is \<open>None\<close> here.
\<close>

definition getTaskId :: "TerminalWidget \<Rightarrow> string option" where
  "getTaskId t =
     (let parts = split (CHR '':'') (widget_id t)
      in if 1 < length parts then Some (parts ! 1) else None)"

section \<open>The world of the contribution\<close>

text \<open>
  The state the class works on: the store of widget objects, the registry
  \<^verbatim>\<open>taskTerminals\<close> (a map from terminal ids to widget references), the live terminals of
  the subsystem (\<^verbatim>\<open>this.terminals.all\<close>), and the trace of everything the code asks of
  its collaborators or writes to the console, in order. The length of the trace is the
  clock of the model.
\<close>

datatype error = TypeError | CallFailed

datatype ui_event =
    UserClose addr
  | DisposeWidget addr
  | CreateTerminal TerminalWidgetOptions

datatype event =
    GetTasks
  | NewTerminal TerminalWidgetOptions
  | Start addr
  | ActivateTerminal addr "addr option" string string
  | OpenTerminal addr
  | ExecuteCommand addr string "string list"
  | Dispose addr
  | Fetch string
  | ConsoleError string "error option"
  | Ui ui_event

record world =
  widgets :: "addr \<Rightarrow> TerminalWidget"
  allocated :: nat
  taskTerminals :: "string \<rightharpoonup> addr"
  all_terminals :: "addr list"
  trace :: "event list"

text \<open>
  What the code cannot decide is a parameter: whether the collaborator call issued at a
  given time throws or rejects, which user-interface events arrive while the pass is
  suspended at an \<^verbatim>\<open>await\<close>, the validity check on backing session ids
  (\<^verbatim>\<open>IBaseTerminalServer.validateId\<close>), the session id a successful start assigns, the id
  the subsystem gives a terminal created without one, and \<^verbatim>\<open>window.location\<close>.
\<close>

record env =
  fails :: "nat \<Rightarrow> bool"
  interleaved :: "nat \<Rightarrow> ui_event list"
  validateId :: "int option \<Rightarrow> bool"
  backing_id :: "nat \<Rightarrow> int"
  generated_id :: "addr \<Rightarrow> string"
  protocol :: string
  host :: string

definition now :: "world \<Rightarrow> nat" where
  "now w = length (trace w)"

definition emit :: "event \<Rightarrow> world \<Rightarrow> world" where
  "emit e w = w\<lparr>trace := trace w @ [e]\<rparr>"

definition console_error :: "string \<Rightarrow> error option \<Rightarrow> world \<Rightarrow> world" where
  "console_error msg e w = emit (ConsoleError msg e) w"

definition initial :: world where
  "initial = \<lparr>widgets = (\<lambda>_. \<lparr>widget_id = [], kind = None, remoteTerminal = None,
       terminalId = None, isDisposed = True, subscribed = False\<rparr>),
     allocated = 0, taskTerminals = Map.empty, all_terminals = [], trace = []\<rparr>"

section \<open>The handlers registered by init\<close>

text \<open>Line 50: \<^verbatim>\<open>terminal.onDidDispose(() => this.taskTerminals.delete(terminal.id))\<close>.\<close>

definition onDidDispose :: "addr \<Rightarrow> world \<Rightarrow> world" where
  "onDidDispose a w = w\<lparr>taskTerminals := (taskTerminals w)(widget_id (widgets w a) := None)\<rparr>"

text \<open>Lines 53 to 59: the close request, or the diagnostic when the latch is not set.\<close>

definition onTerminalDidClose :: "env \<Rightarrow> addr \<Rightarrow> world \<Rightarrow> world" where
  "onTerminalDidClose env a w =
     (if truthy (remoteTerminal (widgets w a))
      then emit (Fetch (protocol env @ ''//'' @ host env @ ''/_supervisor/v1/terminal/close/''
                         @ js_template (remoteTerminal (widgets w a)))) w
      else console_error ''task alias is missing'' None w)"

text \<open>Lines 47 to 61: a task terminal is registered and the two callbacks are subscribed.\<close>

definition onDidCreateTerminal :: "addr \<Rightarrow> world \<Rightarrow> world" where
  "onDidCreateTerminal a w =
     (if is_task_terminal (widgets w a)
      then w\<lparr>widgets := (widgets w)(a := (widgets w a)\<lparr>subscribed := True\<rparr>),
             taskTerminals := (taskTerminals w)(widget_id (widgets w a) \<mapsto> a)\<rparr>
      else w)"

section \<open>The terminal subsystem\<close>

text \<open>
  Modelled from the spec: the terminal subsystem and the widgets are collaborators whose
  code is not among the sources; the spec gives their contract (section 6). Creating a
  terminal allocates a fresh widget object with the requested id and kind, adds it to the
  live terminals and fires \<^verbatim>\<open>onDidCreateTerminal\<close>. Disposing a widget happens once,
  removes it from the live terminals and runs its disposal callback. A user closing a
  terminal runs its close callback and then disposes it.
\<close>

definition create_widget :: "env \<Rightarrow> TerminalWidgetOptions \<Rightarrow> world \<Rightarrow> addr \<times> world" where
  "create_widget env opts w =
     (let a = allocated w;
          t = \<lparr>widget_id = (case opt_id opts of Some i \<Rightarrow> i | None \<Rightarrow> generated_id env a),
               kind = opt_kind opts, remoteTerminal = None, terminalId = None,
               isDisposed = False, subscribed = False\<rparr>
      in (a, onDidCreateTerminal a
               (w\<lparr>widgets := (widgets w)(a := t), allocated := Suc a,
                   all_terminals := all_terminals w @ [a]\<rparr>)))"

definition dispose_widget :: "addr \<Rightarrow> world \<Rightarrow> world" where
  "dispose_widget a w =
     (if isDisposed (widgets w a) then w
      else let w1 = w\<lparr>widgets := (widgets w)(a := (widgets w a)\<lparr>isDisposed := True\<rparr>),
                       all_terminals := removeAll a (all_terminals w)\<rparr>
           in if subscribed (widgets w a) then onDidDispose a w1 else w1)"

definition user_close :: "env \<Rightarrow> addr \<Rightarrow> world \<Rightarrow> world" where
  "user_close env a w =
     (if isDisposed (widgets w a) then w
      else dispose_widget a (if subscribed (widgets w a) then onTerminalDidClose env a w else w))"

fun ui_step :: "env \<Rightarrow> ui_event \<Rightarrow> world \<Rightarrow> world" where
  "ui_step env (UserClose a) w =
     (if a < allocated w then user_close env a (emit (Ui (UserClose a)) w) else w)"
| "ui_step env (DisposeWidget a) w =
     (if a < allocated w then dispose_widget a (emit (Ui (DisposeWidget a)) w) else w)"
| "ui_step env (CreateTerminal opts) w =
     snd (create_widget env opts (emit (Ui (CreateTerminal opts)) w))"

text \<open>
  An \<^verbatim>\<open>await\<close> suspends the pass; the events the environment delivers meanwhile run
  before the pass resumes.
\<close>

definition suspend :: "env \<Rightarrow> world \<Rightarrow> world" where
  "suspend env w = fold (ui_step env) (interleaved env (now w)) w"

text \<open>The calls of the reconciler; each is recorded, then it fails or takes effect.\<close>

definition newTerminal :: "env \<Rightarrow> TerminalWidgetOptions \<Rightarrow> world \<Rightarrow> (error + addr) \<times> world" where
  "newTerminal env opts w =
     (let w1 = emit (NewTerminal opts) w
      in if fails env (now w) then (Inl CallFailed, suspend env w1)
         else (case create_widget env opts w1 of (a, w2) \<Rightarrow> (Inr a, suspend env w2)))"

definition start_call :: "env \<Rightarrow> addr \<Rightarrow> world \<Rightarrow> error option \<times> world" where
  "start_call env a w =
     (let w1 = emit (Start a) w
      in if fails env (now w) then (Some CallFailed, w1)
         else (None, w1\<lparr>widgets := (widgets w1)
                 (a := (widgets w1 a)\<lparr>terminalId := Some (backing_id env (now w))\<rparr>)\<rparr>))"

definition start :: "env \<Rightarrow> addr \<Rightarrow> world \<Rightarrow> error option \<times> world" where
  "start env a w = (case start_call env a w of (r, w1) \<Rightarrow> (r, suspend env w1))"

definition activateTerminal ::
  "env \<Rightarrow> addr \<Rightarrow> addr option \<Rightarrow> string \<Rightarrow> string \<Rightarrow> world \<Rightarrow> error option \<times> world" where
  "activateTerminal env a ref area mode w =
     (let w1 = emit (ActivateTerminal a ref area mode) w
      in if fails env (now w) then (Some CallFailed, w1) else (None, w1))"

definition executeCommand ::
  "env \<Rightarrow> addr \<Rightarrow> string \<Rightarrow> string list \<Rightarrow> world \<Rightarrow> error option \<times> world" where
  "executeCommand env a cwd args w =
     (let w1 = emit (ExecuteCommand a cwd args) w
      in if fails env (now w) then (Some CallFailed, suspend env w1)
         else (None, suspend env w1))"

definition dispose :: "addr \<Rightarrow> world \<Rightarrow> world" where
  "dispose a w = dispose_widget a (emit (Dispose a) w)"

text \<open>
  Modelled from the spec: \<^verbatim>\<open>open(handle)\<close> of the terminal subsystem contract, called
  at line 112 as \<^verbatim>\<open>this.terminals.open(terminal)\<close>; here \<open>open_terminal\<close>. A synchronous
  call that shows the terminal or throws.
\<close>

definition open_terminal :: "env \<Rightarrow> addr \<Rightarrow> world \<Rightarrow> error option \<times> world" where
  "open_terminal env a w =
     (let w1 = emit (OpenTerminal a) w
      in if fails env (now w) then (Some CallFailed, w1) else (None, w1))"

section \<open>The reconciliation passes\<close>

text \<open>
  The body of the \<^verbatim>\<open>try\<close> block of \<^verbatim>\<open>initTerminals\<close> (lines 81 to 101): the error
  thrown, if any, the value of \<^verbatim>\<open>ref\<close> afterwards, and the world. The options object of
  \<^verbatim>\<open>newTerminal\<close> is built before the call, so a task without presentation throws before
  any terminal is requested.
\<close>

definition task_options :: "string \<Rightarrow> Presentation \<Rightarrow> TerminalWidgetOptions" where
  "task_options i p = \<lparr>opt_id = Some i, opt_kind = Some ''gitpod-task'',
     opt_title = Some (name p), opt_useServerTitle = Some False\<rparr>"

definition initTask_try ::
  "env \<Rightarrow> GitpodTask \<Rightarrow> addr option \<Rightarrow> world \<Rightarrow> error option \<times> addr option \<times> world" where
  "initTask_try env task ref w =
     (let i = toTerminalId (task_id task) in
      case taskTerminals w i of
        None \<Rightarrow>
          (case presentation task of
             None \<Rightarrow> (Some TypeError, ref, w)
           | Some p \<Rightarrow>
               (case newTerminal env (task_options i p) w of
                  (Inl e, w1) \<Rightarrow> (Some e, ref, w1)
                | (Inr a, w1) \<Rightarrow>
                    (case start env a w1 of
                       (Some e, w2) \<Rightarrow> (Some e, ref, w2)
                     | (None, w2) \<Rightarrow>
                         (case activateTerminal env a ref (js_or (openIn p) ''bottom'')
                                 (js_or (openMode p) ''tab-after'') w2 of
                            (Some e, w3) \<Rightarrow> (Some e, ref, w3)
                          | (None, w3) \<Rightarrow> (None, Some a, w3)))))
      | Some a \<Rightarrow>
          if \<not> validateId env (terminalId (widgets w a))
          then (case start env a w of
                  (Some e, w1) \<Rightarrow> (Some e, ref, w1)
                | (None, w1) \<Rightarrow> (None, Some a, w1))
          else (None, Some a, w))"

text \<open>The loop of lines 76 to 105, with the \<^verbatim>\<open>catch\<close> of line 102.\<close>

fun initLoop :: "env \<Rightarrow> GitpodTask list \<Rightarrow> addr option \<Rightarrow> world \<Rightarrow> addr option \<times> world" where
  "initLoop env [] ref w = (ref, w)"
| "initLoop env (task # tasks) ref w =
     (if state task = CLOSED then initLoop env tasks ref w
      else (case initTask_try env task ref w of
              (None, ref1, w1) \<Rightarrow> initLoop env tasks ref1 w1
            | (Some e, ref1, w1) \<Rightarrow>
                initLoop env tasks ref1
                  (console_error ''Failed to start Gitpod task terminal:'' (Some e) w1)))"

text \<open>The body of the \<^verbatim>\<open>try\<close> block of \<^verbatim>\<open>updateTerminals\<close> (lines 119 to 135).\<close>

definition attach_args :: "string option \<Rightarrow> string list" where
  "attach_args r = split (CHR '' '') (''/theia/supervisor terminal attach '' @ js_template r @ '' -ir'')"

definition updateTask_try :: "env \<Rightarrow> GitpodTask \<Rightarrow> world \<Rightarrow> error option \<times> world" where
  "updateTask_try env task w =
     (case taskTerminals w (toTerminalId (task_id task)) of
        None \<Rightarrow> (None, w)
      | Some a \<Rightarrow>
          if state task = CLOSED then (None, dispose a w)
          else if state task \<noteq> RUNNING \<or> truthy (remoteTerminal (widgets w a)) then (None, w)
          else let w1 = w\<lparr>widgets := (widgets w)
                          (a := (widgets w a)\<lparr>remoteTerminal := terminal task\<rparr>)\<rparr>
               in executeCommand env a ''/workspace'' (attach_args (remoteTerminal (widgets w1 a))) w1)"

text \<open>
  \<^verbatim>\<open>updateTerminals\<close> (lines 116 to 140). An asynchronous function settles by returning or
  by rejecting: the first component is the error of a rejection.
\<close>

fun updateTerminals :: "env \<Rightarrow> GitpodTask list \<Rightarrow> world \<Rightarrow> error option \<times> world" where
  "updateTerminals env [] w = (None, w)"
| "updateTerminals env (task # tasks) w =
     (case updateTask_try env task w of
        (None, w1) \<Rightarrow> updateTerminals env tasks w1
      | (Some e, w1) \<Rightarrow>
          updateTerminals env tasks
            (console_error ''Failed to update Gitpod task terminal:'' (Some e) w1))"

text \<open>
  \<^verbatim>\<open>initTerminals\<close> (lines 73 to 114); \<open>fetched\<close> is what \<^verbatim>\<open>getTasks()\<close> answers. The
  start of the fallback terminal is not awaited, so the pass does not see it fail. The
  fallback terminal is requested and opened outside any \<^verbatim>\<open>try\<close>: a failure of either
  call rejects the pass.
\<close>

definition no_options :: TerminalWidgetOptions where
  "no_options = \<lparr>opt_id = None, opt_kind = None, opt_title = None, opt_useServerTitle = None\<rparr>"

definition initTerminals ::
  "env \<Rightarrow> error + GitpodTask list \<Rightarrow> world \<Rightarrow> error option \<times> world" where
  "initTerminals env fetched w =
     (let w0 = suspend env (emit GetTasks w) in
      case fetched of
        Inl e \<Rightarrow> (Some e, w0)
      | Inr tasks \<Rightarrow>
          (case initLoop env tasks None w0 of
             (ref, w1) \<Rightarrow>
               (case updateTerminals env tasks w1 of
                  (Some e, w2) \<Rightarrow> (Some e, w2)
                | (None, w2) \<Rightarrow>
                    if all_terminals w2 = []
                    then (case newTerminal env no_options w2 of
                            (Inl e, w3) \<Rightarrow> (Some e, w3)
                          | (Inr a, w3) \<Rightarrow>
                              open_terminal env a (snd (start_call env a w3)))
                    else (None, w2))))"

text \<open>
  The bootstrap pass as \<^verbatim>\<open>onDidInitializeLayout\<close> submits it (line 65): the rejection of
  \<^verbatim>\<open>initTerminals\<close> is caught and logged.
\<close>

definition bootstrap :: "env \<Rightarrow> error + GitpodTask list \<Rightarrow> world \<Rightarrow> world" where
  "bootstrap env fetched w =
     (case initTerminals env fetched w of
        (None, w1) \<Rightarrow> w1
      | (Some e, w1) \<Rightarrow> console_error ''Failed to initizalize Gitpod task terminals:'' (Some e) w1)"

text \<open>
  What happens to the contribution: the layout is initialised (the bootstrap pass), the
  server pushes a task list (an update pass), or the user interface delivers an event
  between two passes. Passes run one after the other, in the order of their submission:
  the promise chain of the next section sees to that.
\<close>

datatype input =
    Layout "error + GitpodTask list"
  | Change "GitpodTask list"
  | Event ui_event

fun react :: "env \<Rightarrow> input \<Rightarrow> world \<Rightarrow> world" where
  "react env (Layout fetched) w = bootstrap env fetched w"
| "react env (Change tasks) w = snd (updateTerminals env tasks w)"
| "react env (Event e) w = ui_step env e w"

definition run :: "env \<Rightarrow> input list \<Rightarrow> world \<Rightarrow> world" where
  "run env inputs w = fold (react env) inputs w"

section \<open>The promise chain\<close>

text \<open>
  The field \<^verbatim>\<open>pendingUpdates\<close> (line 43) and \<^verbatim>\<open>onDidInitializeLayout\<close> (lines 64 to
  71) rest on the promises of the runtime. As far as the class uses them: a promise is
  pending, fulfilled or rejected; \<^verbatim>\<open>then\<close> and \<^verbatim>\<open>catch\<close> make a new promise and register
  a reaction on the old one; when a promise settles, its reactions become microtasks;
  calling an asynchronous function starts a pass and gives a promise that settles when
  the pass completes. Several passes could be in flight at once: nothing in this model
  forbids it.
\<close>

type_synonym pid = nat

datatype outcome = Fulfilled | Rejected error

datatype job = Init "error + GitpodTask list" | Update "GitpodTask list"

datatype reaction = ThenUpdate "GitpodTask list" | CatchLog | Adopt

datatype mark = Begin job | End job

text \<open>
  The state of the event loop: the world of the contribution, the promises by number, the
  reactions registered (source, reaction, derived promise), the queue of microtasks, the
  passes in flight with the promise each will settle, the field \<^verbatim>\<open>pendingUpdates\<close>, and
  two records kept for the statement of the properties: the passes in the order of their
  submission, and the begin and end of each pass in the order they happened.
\<close>

record scheduler =
  the_world :: world
  promises :: "outcome option list"
  reactions :: "(pid \<times> reaction \<times> pid) list"
  microtasks :: "(reaction \<times> pid \<times> outcome) list"
  running :: "(pid \<times> job) list"
  pendingUpdates :: pid
  submitted :: "job list"
  history :: "mark list"

definition new_promise :: "scheduler \<Rightarrow> pid \<times> scheduler" where
  "new_promise s = (length (promises s), s\<lparr>promises := promises s @ [None]\<rparr>)"

text \<open>
  Settling a promise hands its reactions to the microtask queue, in the order of their
  registration. Registering a reaction on a promise that is already settled queues it at
  once.
\<close>

definition settle :: "pid \<Rightarrow> outcome \<Rightarrow> scheduler \<Rightarrow> scheduler" where
  "settle p out s =
     s\<lparr>promises := (promises s)[p := Some out],
       microtasks := microtasks s @
         map (\<lambda>(src, r, q). (r, q, out)) (filter (\<lambda>x. fst x = p) (reactions s)),
       reactions := filter (\<lambda>x. fst x \<noteq> p) (reactions s)\<rparr>"

definition register :: "pid \<Rightarrow> reaction \<Rightarrow> pid \<Rightarrow> scheduler \<Rightarrow> scheduler" where
  "register p r q s =
     (case promises s ! p of
        None \<Rightarrow> s\<lparr>reactions := reactions s @ [(p, r, q)]\<rparr>
      | Some out \<Rightarrow> s\<lparr>microtasks := microtasks s @ [(r, q, out)]\<rparr>)"

text \<open>
  Calling an asynchronous function: its body begins, and the promise it returns is
  pending until the body completes.
\<close>

definition call :: "job \<Rightarrow> scheduler \<Rightarrow> pid \<times> scheduler" where
  "call j s =
     (case new_promise s of
        (p, s1) \<Rightarrow> (p, s1\<lparr>running := running s1 @ [(p, j)], history := history s1 @ [Begin j]\<rparr>))"

text \<open>
  Lines 67 and 68, the client's \<^verbatim>\<open>onDidChange\<close>:
  \<^verbatim>\<open>this.pendingUpdates = this.pendingUpdates.then(() => this.updateTerminals(tasks))\<close>.
\<close>

definition onDidChange :: "GitpodTask list \<Rightarrow> scheduler \<Rightarrow> scheduler" where
  "onDidChange tasks s =
     (case new_promise s of
        (q, s1) \<Rightarrow>
          (register (pendingUpdates s) (ThenUpdate tasks) q s1)
            \<lparr>pendingUpdates := q, submitted := submitted s @ [Update tasks]\<rparr>)"

text \<open>
  Lines 65 to 70: \<^verbatim>\<open>this.initTerminals()\<close> is called, \<^verbatim>\<open>catch\<close> derives the first promise
  of the chain, and the client is set, so that notifications can arrive from now on.
\<close>

definition onDidInitializeLayout :: "error + GitpodTask list \<Rightarrow> world \<Rightarrow> scheduler" where
  "onDidInitializeLayout fetched w =
     (case call (Init fetched)
             \<lparr>the_world = w, promises = [], reactions = [], microtasks = [], running = [],
              pendingUpdates = 0, submitted = [], history = []\<rparr> of
        (p, s1) \<Rightarrow>
          (case new_promise s1 of
             (q, s2) \<Rightarrow>
               (register p CatchLog q s2)\<lparr>pendingUpdates := q, submitted := [Init fetched]\<rparr>))"

text \<open>
  A pass in flight completes: its effects are those of the function of the previous
  section, and its promise is fulfilled, or rejected with the error.
\<close>

definition body :: "env \<Rightarrow> job \<Rightarrow> world \<Rightarrow> error option \<times> world" where
  "body env j w =
     (case j of Init fetched \<Rightarrow> initTerminals env fetched w
              | Update tasks \<Rightarrow> updateTerminals env tasks w)"

definition completes :: "env \<Rightarrow> pid \<Rightarrow> scheduler \<Rightarrow> scheduler" where
  "completes env p s =
     (case map_of (running s) p of
        None \<Rightarrow> s
      | Some j \<Rightarrow>
          (case body env j (the_world s) of
             (r, w) \<Rightarrow>
               settle p (case r of None \<Rightarrow> Fulfilled | Some e \<Rightarrow> Rejected e)
                 (s\<lparr>the_world := w, running := filter (\<lambda>x. fst x \<noteq> p) (running s),
                    history := history s @ [End j]\<rparr>)))"

text \<open>
  One microtask. A \<^verbatim>\<open>then\<close> reaction calls \<^verbatim>\<open>updateTerminals\<close> when its source was
  fulfilled, and the derived promise adopts the promise of the call; it passes a rejection
  on without calling. The \<^verbatim>\<open>catch\<close> reaction of line 65 logs a rejection; its derived
  promise is fulfilled either way.
\<close>

definition microtask :: "scheduler \<Rightarrow> scheduler" where
  "microtask s =
     (case microtasks s of
        [] \<Rightarrow> s
      | (r, q, out) # rest \<Rightarrow>
          let s1 = s\<lparr>microtasks := rest\<rparr> in
          (case r of
             ThenUpdate tasks \<Rightarrow>
               (case out of
                  Fulfilled \<Rightarrow> (case call (Update tasks) s1 of (p, s2) \<Rightarrow> register p Adopt q s2)
                | Rejected e \<Rightarrow> settle q (Rejected e) s1)
           | CatchLog \<Rightarrow>
               (case out of
                  Fulfilled \<Rightarrow> settle q Fulfilled s1
                | Rejected e \<Rightarrow>
                    settle q Fulfilled
                      (s1\<lparr>the_world := console_error
                            ''Failed to initizalize Gitpod task terminals:'' (Some e) (the_world s1)\<rparr>))
           | Adopt \<Rightarrow> settle q out s1))"

text \<open>
  What can happen after the layout is initialised, in any order: the server pushes a task
  list, the pass in flight with a given promise completes, a microtask runs.
\<close>

datatype occurrence = Pushed "GitpodTask list" | Completed pid | Microtask

fun occur :: "env \<Rightarrow> occurrence \<Rightarrow> scheduler \<Rightarrow> scheduler" where
  "occur env (Pushed tasks) s = onDidChange tasks s"
| "occur env (Completed p) s = completes env p s"
| "occur env Microtask s = microtask s"

definition exec :: "env \<Rightarrow> occurrence list \<Rightarrow> scheduler \<Rightarrow> scheduler" where
  "exec env occs s = fold (occur env) occs s"

section \<open>Notions for stating the properties\<close>

text \<open>The events a step appended to the trace.\<close>

definition appended :: "world \<Rightarrow> world \<Rightarrow> event list" where
  "appended w w' = drop (length (trace w)) (trace w')"

text \<open>
  The registry is sound when every entry refers to an allocated widget that bears the
  entry's key as its id, has its callbacks subscribed and is not disposed.
\<close>

definition registry_ok :: "world \<Rightarrow> bool" where
  "registry_ok w =
     (\<forall>k a. taskTerminals w k = Some a \<longrightarrow>
        a < allocated w \<and> widget_id (widgets w a) = k \<and>
        subscribed (widgets w a) \<and> \<not> isDisposed (widgets w a))"

text \<open>
  A step only appends events to the trace, each of which satisfies a predicate.
\<close>

definition appends :: "(event \<Rightarrow> bool) \<Rightarrow> world \<Rightarrow> world \<Rightarrow> bool" where
  "appends P w w' = (\<exists>evs. trace w' = trace w @ evs \<and> list_all P evs)"

text \<open>
  The events that user-interface events and the callbacks of \<^verbatim>\<open>init\<close> put on the
  trace.
\<close>

definition ambient :: "event \<Rightarrow> bool" where
  "ambient e = (case e of
       Ui _ \<Rightarrow> True
     | Fetch _ \<Rightarrow> True
     | ConsoleError m x \<Rightarrow> m = ''task alias is missing'' \<and> x = None
     | _ \<Rightarrow> False)"

text \<open>
  What no step undoes: widgets stay allocated and keep their id and kind, a latch that
  holds a non-empty session id keeps it, and a disposed widget stays disposed.
\<close>

definition evolves :: "world \<Rightarrow> world \<Rightarrow> bool" where
  "evolves w w' =
     (allocated w \<le> allocated w' \<and>
      (\<forall>a<allocated w.
         widget_id (widgets w' a) = widget_id (widgets w a) \<and>
         kind (widgets w' a) = kind (widgets w a) \<and>
         (truthy (remoteTerminal (widgets w a)) \<longrightarrow>
            remoteTerminal (widgets w' a) = remoteTerminal (widgets w a)) \<and>
         (isDisposed (widgets w a) \<longrightarrow> isDisposed (widgets w' a))))"

text \<open>
  The task list an input carries, and the request of a terminal with a given id.
\<close>

fun payload :: "input \<Rightarrow> GitpodTask list" where
  "payload (Layout (Inr tasks)) = tasks"
| "payload (Layout (Inl e)) = []"
| "payload (Change tasks) = tasks"
| "payload (Event e) = []"

definition requests :: "string \<Rightarrow> event \<Rightarrow> bool" where
  "requests i e = (\<exists>opts. e = NewTerminal opts \<and> opt_id opts = Some i)"

text \<open>
  The latch of a widget is set when the field holds what the code's test accepts; an
  attach command for a widget.
\<close>

definition latched :: "addr \<Rightarrow> world \<Rightarrow> bool" where
  "latched a w = (a < allocated w \<and> truthy (remoteTerminal (widgets w a)))"

definition attaches :: "addr \<Rightarrow> event \<Rightarrow> bool" where
  "attaches a e = (\<exists>cwd args. e = ExecuteCommand a cwd args)"

text \<open>
  The collaborator calls that can fail. The event at position \<open>n\<close> of the trace is the
  call issued at time \<open>n\<close>. In a stretch of the trace that starts at a given time, the
  failed calls are caught when, after each of them, the first event that is not ambient
  is the log of the loop's \<^verbatim>\<open>catch\<close>: the given message with the error of the call.
\<close>

definition is_call :: "event \<Rightarrow> bool" where
  "is_call e = (case e of
       NewTerminal _ \<Rightarrow> True
     | Start _ \<Rightarrow> True
     | ActivateTerminal _ _ _ _ \<Rightarrow> True
     | ExecuteCommand _ _ _ \<Rightarrow> True
     | _ \<Rightarrow> False)"

fun caught :: "env \<Rightarrow> string \<Rightarrow> nat \<Rightarrow> event list \<Rightarrow> bool" where
  "caught env msg n [] = True"
| "caught env msg n (e # evs) =
     ((is_call e \<and> fails env n \<longrightarrow>
         take 1 (dropWhile ambient evs) = [ConsoleError msg (Some CallFailed)]) \<and>
      caught env msg (Suc n) evs)"

text \<open>
  A block of statements that leads from one world to another and ends with an error, or
  with none: its failed calls are caught once the error it ended with is logged.
\<close>

definition settled :: "env \<Rightarrow> string \<Rightarrow> world \<Rightarrow> error option \<Rightarrow> world \<Rightarrow> bool" where
  "settled env msg w r w' =
     (\<exists>evs. trace w' = trace w @ evs \<and>
        caught env msg (now w)
          (evs @ (case r of None \<Rightarrow> [] | Some e \<Rightarrow> [ConsoleError msg (Some e)])))"


text \<open>
  What every step but the assignment of line 131 leaves alone: the trace only grows,
  widgets stay allocated, and every widget that exists keeps its id, its kind and its
  latch.
\<close>

definition same_latches :: "world \<Rightarrow> world \<Rightarrow> bool" where
  "same_latches w w' =
     (allocated w \<le> allocated w' \<and> (\<exists>evs. trace w' = trace w @ evs) \<and>
      (\<forall>a<allocated w.
         widget_id (widgets w' a) = widget_id (widgets w a) \<and>
         kind (widgets w' a) = kind (widgets w a) \<and>
         remoteTerminal (widgets w' a) = remoteTerminal (widgets w a)))"

text \<open>
  The then-reactions waiting in the chain, from the promise that settles next to the
  tail: each link is registered on the promise the previous one derives, and promises are
  numbered in the order of their creation.
\<close>

type_synonym link = "pid \<times> GitpodTask list \<times> pid"

fun linked :: "pid \<Rightarrow> link list \<Rightarrow> pid \<Rightarrow> bool" where
  "linked c [] z = (c = z)"
| "linked c ((src, t, q) # ls) z = (src = c \<and> c < q \<and> linked q ls z)"

definition unlink :: "link \<Rightarrow> pid \<times> reaction \<times> pid" where
  "unlink = (\<lambda>(src, t, q). (src, ThenUpdate t, q))"

definition waiting :: "link list \<Rightarrow> job list" where
  "waiting ls = map (\<lambda>(src, t, q). Update t) ls"

text \<open>
  The passes begun, in order; and the pass in flight according to the history, which is
  undefined as soon as a pass begins while another one is in flight or an end does not
  match the pass in flight.
\<close>

fun begun :: "mark list \<Rightarrow> job list" where
  "begun [] = []"
| "begun (Begin j # h) = j # begun h"
| "begun (End j # h) = begun h"

fun track :: "mark \<Rightarrow> job option option \<Rightarrow> job option option" where
  "track (Begin j) (Some None) = Some (Some j)"
| "track (End j) (Some (Some j')) = (if j = j' then Some None else None)"
| "track m x = None"

definition in_flight :: "mark list \<Rightarrow> job option option" where
  "in_flight h = fold track h (Some None)"

text \<open>
  The invariant of the chain. Either a pass is in flight, and the reaction on its promise
  leads to the head of the chain; or a single microtask is about to settle the head of the
  chain, or to start the next pass; or nothing is left to do and the tail is fulfilled.
  Only the promise of \<^verbatim>\<open>initTerminals\<close> itself, number 0, is ever rejected.
\<close>

definition handler_of :: "job \<Rightarrow> reaction" where
  "handler_of j = (case j of Init fetched \<Rightarrow> CatchLog | Update tasks \<Rightarrow> Adopt)"

definition chain :: "pid \<Rightarrow> link list \<Rightarrow> scheduler \<Rightarrow> bool" where
  "chain c ls s =
     (0 < c \<and> linked c ls (pendingUpdates s) \<and> pendingUpdates s < length (promises s) \<and>
      (\<forall>x\<in>set ls. promises s ! snd (snd x) = None) \<and>
      (\<forall>q<length (promises s). \<forall>e. promises s ! q = Some (Rejected e) \<longrightarrow> q = 0))"

definition in_pass :: "pid \<Rightarrow> scheduler \<Rightarrow> bool" where
  "in_pass c s =
     (\<exists>p j ls1 ls2. chain c (ls1 @ ls2) s \<and> running s = [(p, j)] \<and> microtasks s = [] \<and>
        reactions s = map unlink ls1 @ (p, handler_of j, c) # map unlink ls2 \<and>
        p < length (promises s) \<and> promises s ! p = None \<and> promises s ! c = None \<and>
        p \<noteq> c \<and> p \<notin> (\<lambda>x. snd (snd x)) ` set (ls1 @ ls2) \<and>
        (\<forall>fetched. j = Init fetched \<longrightarrow> p = 0) \<and>
        in_flight (history s) = Some (Some j) \<and>
        submitted s = begun (history s) @ waiting (ls1 @ ls2))"

definition settling :: "pid \<Rightarrow> scheduler \<Rightarrow> bool" where
  "settling c s =
     (\<exists>ls r out. chain c ls s \<and> running s = [] \<and> reactions s = map unlink ls \<and>
        microtasks s = [(r, c, out)] \<and> (r = CatchLog \<or> r = Adopt \<and> out = Fulfilled) \<and>
        promises s ! c = None \<and> in_flight (history s) = Some None \<and>
        submitted s = begun (history s) @ waiting ls)"

definition starting :: "pid \<Rightarrow> scheduler \<Rightarrow> bool" where
  "starting c s =
     (\<exists>ls tasks. chain c ls s \<and> running s = [] \<and> reactions s = map unlink ls \<and>
        microtasks s = [(ThenUpdate tasks, c, Fulfilled)] \<and>
        promises s ! c = None \<and> in_flight (history s) = Some None \<and>
        submitted s = begun (history s) @ Update tasks # waiting ls)"

definition idle :: "scheduler \<Rightarrow> bool" where
  "idle s =
     (chain (pendingUpdates s) [] s \<and> running s = [] \<and> reactions s = [] \<and> microtasks s = [] \<and>
      promises s ! pendingUpdates s = Some Fulfilled \<and>
      in_flight (history s) = Some None \<and> submitted s = begun (history s))"

definition serialized :: "scheduler \<Rightarrow> bool" where
  "serialized s = ((\<exists>c. in_pass c s \<or> settling c s \<or> starting c s) \<or> idle s)"

text \<open>
  The passes that the occurrences submit.
\<close>

fun pushes :: "occurrence \<Rightarrow> job list" where
  "pushes (Pushed tasks) = [Update tasks]"
| "pushes (Completed p) = []"
| "pushes Microtask = []"

text \<open>
  The work the event loop has left: three units for each waiting then-reaction, and for
  the pass in flight or the queued microtask what it takes to get to the next reaction.
\<close>

fun is_then :: "pid \<times> reaction \<times> pid \<Rightarrow> bool" where
  "is_then (src, ThenUpdate tasks, q) = True"
| "is_then (src, CatchLog, q) = False"
| "is_then (src, Adopt, q) = False"

fun weight :: "(reaction \<times> pid \<times> outcome) list \<Rightarrow> nat" where
  "weight [] = 0"
| "weight ((ThenUpdate tasks, q, out) # rest) = 3"
| "weight ((CatchLog, q, out) # rest) = 1"
| "weight ((Adopt, q, out) # rest) = 1"

definition pending_work :: "scheduler \<Rightarrow> nat" where
  "pending_work s =
     3 * length (filter is_then (reactions s)) +
     (if running s \<noteq> [] then 2 else weight (microtasks s))"

section \<open>Scenarios\<close>

text \<open>
  Concrete environments, tasks and worlds, on which the theorems are instantiated: an
  environment in which nothing fails, one in which exactly the call issued at a given
  time fails; a running task, a task without presentation, a closed task, a second and a
  third task;
  the world after the bootstrap pass has attached the running task, the world in which
  two terminals wait for their tasks to run, the running task with an empty remote session
  id and the world after it was pushed, the world with the terminal of the second
  task restored before the bootstrap pass, and that world after the creation loop has
  handled the first two tasks.
\<close>

definition quiet :: env where
  "quiet = \<lparr>fails = (\<lambda>_. False), interleaved = (\<lambda>_. []), validateId = (\<lambda>x. x \<noteq> None),
     backing_id = int, generated_id = (\<lambda>_. ''terminal''), protocol = ''https:'', host = ''ws''\<rparr>"

definition failing_at :: "nat \<Rightarrow> env" where
  "failing_at n = quiet\<lparr>fails := (\<lambda>k. k = n)\<rparr>"


definition build_task :: GitpodTask where
  "build_task = \<lparr>task_id = ''t1'', state = RUNNING, terminal = Some ''r1'',
      presentation = Some \<lparr>name = ''build'', openIn = None, openMode = None\<rparr>\<rparr>"

definition bare_task :: GitpodTask where
  "bare_task = \<lparr>task_id = ''t0'', state = OPENING, terminal = None, presentation = None\<rparr>"

definition closed_task :: GitpodTask where
  "closed_task = build_task\<lparr>state := CLOSED\<rparr>"

definition other_task :: GitpodTask where
  "other_task = \<lparr>task_id = ''t2'', state = OPENING, terminal = None,
      presentation = Some \<lparr>name = ''serve'', openIn = Some ''right'', openMode = None\<rparr>\<rparr>"

definition attached_world :: world where
  "attached_world = run quiet [Layout (Inr [build_task])] initial"

definition waiting_world :: world where
  "waiting_world =
     run quiet [Layout (Inr [build_task\<lparr>state := OPENING\<rparr>, other_task])] initial"

definition empty_session_task :: GitpodTask where
  "empty_session_task = build_task\<lparr>terminal := Some []\<rparr>"

definition empty_attached_world :: world where
  "empty_attached_world = run quiet [Change [empty_session_task]] waiting_world"




definition sample_occurrences :: "occurrence list" where
  "sample_occurrences =
     [Pushed [build_task], Completed 0, Microtask, Microtask, Completed 3, Microtask]"

section \<open>The derived identity\<close>

lemma split_not_Nil: "split c s \<noteq> []"
  by (induction s) (auto split: list.splits)

lemma split_no_separator: "c \<notin> set s \<Longrightarrow> split c s = [s]"
  by (induction s) auto

lemma split_append_separator:
  "c \<notin> set p \<Longrightarrow> split c (p @ c # s) = p # split c s"
  by (induction p) auto

lemma idPrefix_no_colon: "CHR '':'' \<notin> set idPrefix"
  by (simp add: idPrefix_def)

lemma split_toTerminalId: "split (CHR '':'') (toTerminalId s) = idPrefix # split (CHR '':'') s"
  unfolding toTerminalId_def using split_append_separator [OF idPrefix_no_colon] by simp

lemma toTerminalId_literal: "toTerminalId s = ''gitpod-task-terminal:'' @ s"
  by (simp add: toTerminalId_def idPrefix_def)

lemma toTerminalId_inject [simp]: "toTerminalId s = toTerminalId s' \<longleftrightarrow> s = s'"
  by (simp add: toTerminalId_def)

lemma hd_split: "hd (split c s) = takeWhile (\<lambda>x. x \<noteq> c) s"
  by (induction s) (auto split: list.splits simp: split_not_Nil)

lemma getTaskId_toTerminalId:
  "widget_id t = toTerminalId s \<Longrightarrow> getTaskId t = Some (takeWhile (\<lambda>x. x \<noteq> CHR '':'') s)"
proof -
  assume "widget_id t = toTerminalId s"
  then have parts: "split (CHR '':'') (widget_id t) = idPrefix # split (CHR '':'') s"
    by (simp add: split_toTerminalId)
  obtain p ps where ps: "split (CHR '':'') s = p # ps"
    using split_not_Nil [of "CHR '':''" s] by (cases "split (CHR '':'') s") auto
  have "p = takeWhile (\<lambda>x. x \<noteq> CHR '':'') s"
    using hd_split [of "CHR '':''" s] ps by simp
  then show ?thesis
    by (simp add: getTaskId_def parts ps)
qed

lemma getTaskId_roundtrip_no_colon:
  "CHR '':'' \<notin> set s \<Longrightarrow> widget_id t = toTerminalId s \<Longrightarrow> getTaskId t = Some s"
  by (auto simp: getTaskId_toTerminalId takeWhile_eq_all_conv)

text \<open>
  C8. The derived identity is the prefix, a colon and the task id, and the derivation is
  injective (the two lemmas above); the way back holds for task ids without a colon. But
  \<^verbatim>\<open>getTaskId\<close> takes the piece between the first and the second colon: for the task id
  \<^verbatim>\<open>a:b\<close> it yields \<^verbatim>\<open>a\<close>, not the task id.
\<close>

theorem getTaskId_loses_colon_suffix:
  "toTerminalId ''a:b'' = ''gitpod-task-terminal:a:b'' \<and>
   getTaskId \<lparr>widget_id = toTerminalId ''a:b'', kind = Some ''gitpod-task'',
     remoteTerminal = None, terminalId = Some 1, isDisposed = False, subscribed = True\<rparr> = Some ''a''"
  by (simp add: getTaskId_def toTerminalId_def idPrefix_def)

section \<open>Basic facts about the steps\<close>


lemma emit_simps [simp]:
  "trace (emit e w) = trace w @ [e]"
  "widgets (emit e w) = widgets w"
  "allocated (emit e w) = allocated w"
  "taskTerminals (emit e w) = taskTerminals w"
  "all_terminals (emit e w) = all_terminals w"
  by (simp_all add: emit_def)

lemma console_error_simps [simp]:
  "trace (console_error m e w) = trace w @ [ConsoleError m e]"
  "widgets (console_error m e w) = widgets w"
  "allocated (console_error m e w) = allocated w"
  "taskTerminals (console_error m e w) = taskTerminals w"
  "all_terminals (console_error m e w) = all_terminals w"
  by (simp_all add: console_error_def)

lemma onDidDispose_simps [simp]:
  "trace (onDidDispose a w) = trace w"
  "widgets (onDidDispose a w) = widgets w"
  "allocated (onDidDispose a w) = allocated w"
  "taskTerminals (onDidDispose a w) = (taskTerminals w)(widget_id (widgets w a) := None)"
  "all_terminals (onDidDispose a w) = all_terminals w"
  by (simp_all add: onDidDispose_def)

lemma onTerminalDidClose_simps [simp]:
  "widgets (onTerminalDidClose env a w) = widgets w"
  "allocated (onTerminalDidClose env a w) = allocated w"
  "taskTerminals (onTerminalDidClose env a w) = taskTerminals w"
  "all_terminals (onTerminalDidClose env a w) = all_terminals w"
  by (simp_all add: onTerminalDidClose_def)

lemma appends_refl [simp]: "appends P w w"
  by (simp add: appends_def)

lemma appends_same_trace: "trace w' = trace w \<Longrightarrow> appends P w w'"
  by (simp add: appends_def)

lemma appends_trans: "appends P w w1 \<Longrightarrow> appends P w1 w2 \<Longrightarrow> appends P w w2"
  by (auto simp: appends_def)

lemma appends_emit: "P e \<Longrightarrow> appends P w (emit e w)"
  by (simp add: appends_def)

lemma appends_emit_trans: "P e \<Longrightarrow> appends P (emit e w) w' \<Longrightarrow> appends P w w'"
  by (auto simp: appends_def)

lemma appends_weaken: "appends P w w' \<Longrightarrow> (\<And>e. P e \<Longrightarrow> Q e) \<Longrightarrow> appends Q w w'"
  by (auto simp: appends_def list_all_iff)

lemma appends_appended: "appends P w w' \<Longrightarrow> list_all P (appended w w')"
  by (auto simp: appends_def appended_def)


lemma evolves_refl [simp]: "evolves w w"
  by (simp add: evolves_def)

lemma evolves_trans: "evolves w w1 \<Longrightarrow> evolves w1 w2 \<Longrightarrow> evolves w w2"
  unfolding evolves_def by (metis (no_types, lifting) le_trans less_le_trans)

lemma evolves_emit [simp]: "evolves w (emit e w)"
  by (simp add: evolves_def)

lemma evolves_console_error [simp]: "evolves w (console_error m e w)"
  by (simp add: evolves_def)

lemma evolves_onDidDispose [simp]: "evolves w (onDidDispose a w)"
  by (simp add: evolves_def)

lemma evolves_onTerminalDidClose [simp]: "evolves w (onTerminalDidClose env a w)"
  by (simp add: evolves_def)

lemma evolves_onDidCreateTerminal [simp]: "evolves w (onDidCreateTerminal a w)"
  by (simp add: evolves_def onDidCreateTerminal_def)

lemma evolves_create_widget: "evolves w (snd (create_widget env opts w))"
  by (simp add: evolves_def create_widget_def onDidCreateTerminal_def Let_def)

lemma evolves_dispose_widget [simp]: "evolves w (dispose_widget a w)"
  by (simp add: evolves_def dispose_widget_def Let_def)

lemma evolves_user_close [simp]: "evolves w (user_close env a w)"
  by (simp add: evolves_def user_close_def dispose_widget_def Let_def)

lemma evolves_after_emit: "evolves (emit e w) w' \<Longrightarrow> evolves w w'"
  using evolves_trans [OF evolves_emit] .

lemma evolves_ui_step: "evolves w (ui_step env e w)"
proof (cases e)
  case (UserClose a)
  have "evolves w (user_close env a (emit (Ui (UserClose a)) w))"
    by (rule evolves_after_emit) (rule evolves_user_close)
  with UserClose show ?thesis by simp
next
  case (DisposeWidget a)
  have "evolves w (dispose_widget a (emit (Ui (DisposeWidget a)) w))"
    by (rule evolves_after_emit) (rule evolves_dispose_widget)
  with DisposeWidget show ?thesis by simp
next
  case (CreateTerminal opts)
  have "evolves w (snd (create_widget env opts (emit (Ui (CreateTerminal opts)) w)))"
    by (rule evolves_after_emit) (rule evolves_create_widget)
  with CreateTerminal show ?thesis by simp
qed

lemma evolves_fold_ui: "evolves w (fold (ui_step env) es w)"
proof (induction es arbitrary: w)
  case Nil
  show ?case by simp
next
  case (Cons e es)
  show ?case
    using evolves_trans [OF evolves_ui_step Cons.IH] by simp
qed

lemma evolves_suspend [simp]: "evolves w (suspend env w)"
  by (simp add: suspend_def evolves_fold_ui)

lemma evolves_then_suspend: "evolves w w' \<Longrightarrow> evolves w (suspend env w')"
  using evolves_trans [OF _ evolves_suspend] .

lemma evolves_newTerminal: "evolves w (snd (newTerminal env opts w))"
proof -
  have "evolves w (suspend env (emit (NewTerminal opts) w))"
    by (rule evolves_then_suspend) simp
  moreover have "evolves w (suspend env (snd (create_widget env opts (emit (NewTerminal opts) w))))"
    by (rule evolves_then_suspend, rule evolves_after_emit, rule evolves_create_widget)
  ultimately show ?thesis
    by (simp add: newTerminal_def Let_def split_beta)
qed

lemma evolves_start_call: "evolves w (snd (start_call env a w))"
  by (simp add: start_call_def Let_def evolves_def)

lemma evolves_start: "evolves w (snd (start env a w))"
  by (simp add: start_def split_beta) (rule evolves_then_suspend, rule evolves_start_call)

lemma evolves_activateTerminal: "evolves w (snd (activateTerminal env a ref area mode w))"
  by (simp add: activateTerminal_def Let_def)

lemma evolves_executeCommand: "evolves w (snd (executeCommand env a cwd args w))"
proof -
  have "evolves w (suspend env (emit (ExecuteCommand a cwd args) w))"
    by (rule evolves_then_suspend) simp
  then show ?thesis
    by (simp add: executeCommand_def Let_def)
qed

lemma evolves_dispose: "evolves w (dispose a w)"
  unfolding dispose_def by (rule evolves_after_emit) (rule evolves_dispose_widget)

lemma evolves_open_terminal: "evolves w (snd (open_terminal env a w))"
  by (simp add: open_terminal_def Let_def)


lemma evolves_updateTask_try: "evolves w (snd (updateTask_try env task w))"
proof (cases "taskTerminals w (toTerminalId (task_id task))")
  case None
  then show ?thesis by (simp add: updateTask_try_def)
next
  case (Some a)
  let ?w1 = "w\<lparr>widgets := (widgets w)(a := (widgets w a)\<lparr>remoteTerminal := terminal task\<rparr>)\<rparr>"
  have assign: "\<not> truthy (remoteTerminal (widgets w a)) \<Longrightarrow> evolves w ?w1"
    by (simp add: evolves_def)
  have "\<not> truthy (remoteTerminal (widgets w a)) \<Longrightarrow>
        evolves w (snd (executeCommand env a cwd args ?w1))" for cwd args
    using evolves_trans [OF assign evolves_executeCommand] .
  then show ?thesis
    using Some by (auto simp: updateTask_try_def Let_def evolves_dispose)
qed

lemma evolves_updateTerminals: "evolves w (snd (updateTerminals env tasks w))"
proof (induction tasks arbitrary: w)
  case Nil
  show ?case by simp
next
  case (Cons task tasks)
  obtain r w1 where step: "updateTask_try env task w = (r, w1)"
    by (cases "updateTask_try env task w")
  then have w1: "evolves w w1"
    using evolves_updateTask_try [of w env task] by simp
  show ?case
  proof (cases r)
    case None
    then show ?thesis
      using step evolves_trans [OF w1 Cons.IH] by simp
  next
    case (Some e)
    have "evolves w (console_error ''Failed to update Gitpod task terminal:'' (Some e) w1)"
      using evolves_trans [OF w1 evolves_console_error] .
    then show ?thesis
      using step Some evolves_trans [OF _ Cons.IH] by simp
  qed
qed

lemma evolves_initTask_try: "evolves w (snd (snd (initTask_try env task ref w)))"
proof (cases "taskTerminals w (toTerminalId (task_id task))")
  case None
  show ?thesis
  proof (cases "presentation task")
    case no: None
    then show ?thesis using None by (simp add: initTask_try_def)
  next
    case (Some p)
    let ?n = "newTerminal env (task_options (toTerminalId (task_id task)) p) w"
    have n: "evolves w (snd ?n)" by (rule evolves_newTerminal)
    have s: "evolves w (snd (start env a (snd ?n)))" for a
      using evolves_trans [OF n evolves_start] .
    have "evolves w (snd (activateTerminal env a ref area mode (snd (start env a (snd ?n)))))"
      for a area mode
      using evolves_trans [OF s evolves_activateTerminal] .
    then show ?thesis
      using None Some n s
      by (auto simp: initTask_try_def Let_def split: prod.splits sum.splits option.splits)
         (metis snd_conv)+
  qed
next
  case (Some a)
  then show ?thesis
    using evolves_start [of w env a]
    by (auto simp: initTask_try_def Let_def split: prod.splits option.splits)
qed

lemma evolves_initLoop: "evolves w (snd (initLoop env tasks ref w))"
proof (induction tasks arbitrary: ref w)
  case Nil
  show ?case by simp
next
  case (Cons task tasks)
  show ?case
  proof (cases "state task = CLOSED")
    case True
    then show ?thesis using Cons.IH by simp
  next
    case False
    obtain r ref1 w1 where step: "initTask_try env task ref w = (r, ref1, w1)"
      by (cases "initTask_try env task ref w")
    then have w1: "evolves w w1"
      using evolves_initTask_try [of w env task ref] by simp
    show ?thesis
    proof (cases r)
      case None
      then show ?thesis
        using False step evolves_trans [OF w1 Cons.IH] by simp
    next
      case (Some e)
      have "evolves w (console_error ''Failed to start Gitpod task terminal:'' (Some e) w1)"
        using evolves_trans [OF w1 evolves_console_error] .
      then show ?thesis
        using False step Some evolves_trans [OF _ Cons.IH] by simp
    qed
  qed
qed


lemma evolves_initTerminals: "evolves w (snd (initTerminals env fetched w))"
proof -
  let ?w0 = "suspend env (emit GetTasks w)"
  have w0: "evolves w ?w0"
    by (rule evolves_then_suspend) simp
  show ?thesis
  proof (cases fetched)
    case (Inl e)
    then show ?thesis using w0 by (simp add: initTerminals_def Let_def)
  next
    case (Inr tasks)
    let ?w1 = "snd (initLoop env tasks None ?w0)"
    let ?w2 = "snd (updateTerminals env tasks ?w1)"
    let ?n = "newTerminal env no_options ?w2"
    have w1: "evolves w ?w1"
      using evolves_trans [OF w0 evolves_initLoop] .
    have w2: "evolves w ?w2"
      using evolves_trans [OF w1 evolves_updateTerminals] .
    have w3: "evolves w (snd ?n)"
      using evolves_trans [OF w2 evolves_newTerminal] .
    have "evolves w (snd (start_call env a (snd ?n)))" for a
      using evolves_trans [OF w3 evolves_start_call] .
    then have w4: "evolves w (snd (open_terminal env a (snd (start_call env a (snd ?n)))))" for a
      using evolves_trans [OF _ evolves_open_terminal] by blast
    show ?thesis
      using Inr w2 w3 w4
      by (simp add: initTerminals_def Let_def split_beta split: option.splits sum.splits)
  qed
qed

lemma evolves_bootstrap: "evolves w (bootstrap env fetched w)"
proof -
  have "evolves w (console_error m e (snd (initTerminals env fetched w)))" for m e
    using evolves_trans [OF evolves_initTerminals evolves_console_error] .
  then show ?thesis
    using evolves_initTerminals [of w env fetched]
    by (simp add: bootstrap_def split_beta split: option.splits)
qed

lemma evolves_react: "evolves w (react env inp w)"
  by (cases inp) (simp_all add: evolves_bootstrap evolves_updateTerminals evolves_ui_step)

lemma evolves_run: "evolves w (run env inputs w)"
  unfolding run_def
proof (induction inputs arbitrary: w)
  case Nil
  show ?case by simp
next
  case (Cons inp inputs)
  show ?case
    using evolves_trans [OF evolves_react Cons.IH] by simp
qed

text \<open>Soundness of the registry is kept by every step.\<close>

lemma registry_ok_emit [simp]: "registry_ok (emit e w) = registry_ok w"
  by (simp add: registry_ok_def)

lemma registry_ok_console_error [simp]: "registry_ok (console_error m e w) = registry_ok w"
  by (simp add: registry_ok_def)

lemma registry_ok_onTerminalDidClose [simp]:
  "registry_ok (onTerminalDidClose env a w) = registry_ok w"
  by (simp add: registry_ok_def)

lemma registry_ok_create_widget:
  "registry_ok w \<Longrightarrow> registry_ok (snd (create_widget env opts w))"
  unfolding registry_ok_def create_widget_def onDidCreateTerminal_def Let_def
  by (auto simp: less_Suc_eq)

lemma registry_ok_dispose_widget:
  "registry_ok w \<Longrightarrow> registry_ok (dispose_widget a w)"
  unfolding registry_ok_def dispose_widget_def onDidDispose_def Let_def
  by auto

lemma registry_ok_user_close:
  "registry_ok w \<Longrightarrow> registry_ok (user_close env a w)"
  by (simp add: user_close_def registry_ok_dispose_widget)

lemma registry_ok_ui_step: "registry_ok w \<Longrightarrow> registry_ok (ui_step env e w)"
  by (cases e) (simp_all add: registry_ok_user_close registry_ok_dispose_widget
      registry_ok_create_widget)

lemma registry_ok_fold_ui: "registry_ok w \<Longrightarrow> registry_ok (fold (ui_step env) es w)"
  by (induction es arbitrary: w) (simp_all add: registry_ok_ui_step)

lemma registry_ok_suspend: "registry_ok w \<Longrightarrow> registry_ok (suspend env w)"
  by (simp add: suspend_def registry_ok_fold_ui)

lemma registry_ok_newTerminal:
  "registry_ok w \<Longrightarrow> registry_ok (snd (newTerminal env opts w))"
  by (simp add: newTerminal_def Let_def split_beta registry_ok_suspend registry_ok_create_widget)

lemma registry_ok_start_call:
  "registry_ok w \<Longrightarrow> registry_ok (snd (start_call env a w))"
  by (simp add: start_call_def Let_def registry_ok_def)

lemma registry_ok_start: "registry_ok w \<Longrightarrow> registry_ok (snd (start env a w))"
  by (simp add: start_def split_beta registry_ok_suspend registry_ok_start_call)

lemma registry_ok_activateTerminal:
  "registry_ok w \<Longrightarrow> registry_ok (snd (activateTerminal env a ref area mode w))"
  by (simp add: activateTerminal_def Let_def)

lemma registry_ok_executeCommand:
  "registry_ok w \<Longrightarrow> registry_ok (snd (executeCommand env a cwd args w))"
  by (simp add: executeCommand_def Let_def registry_ok_suspend)

lemma registry_ok_dispose: "registry_ok w \<Longrightarrow> registry_ok (dispose a w)"
  by (simp add: dispose_def registry_ok_dispose_widget)

lemma registry_ok_open_terminal:
  "registry_ok w \<Longrightarrow> registry_ok (snd (open_terminal env a w))"
  by (simp add: open_terminal_def Let_def)

lemma registry_ok_assign:
  "registry_ok w \<Longrightarrow>
   registry_ok (w\<lparr>widgets := (widgets w)(a := (widgets w a)\<lparr>remoteTerminal := r\<rparr>)\<rparr>)"
  by (simp add: registry_ok_def)

lemma registry_ok_updateTask_try:
  "registry_ok w \<Longrightarrow> registry_ok (snd (updateTask_try env task w))"
  by (simp add: updateTask_try_def Let_def registry_ok_dispose registry_ok_executeCommand
      registry_ok_assign split: option.splits)

lemma registry_ok_updateTerminals:
  "registry_ok w \<Longrightarrow> registry_ok (snd (updateTerminals env tasks w))"
proof (induction tasks arbitrary: w)
  case Nil
  then show ?case by simp
next
  case (Cons task tasks)
  have "registry_ok (snd (updateTask_try env task w))"
    using Cons.prems by (rule registry_ok_updateTask_try)
  then show ?case
    using Cons.IH by (simp add: split_beta split: option.splits)
qed

lemma registry_ok_initTask_try:
  "registry_ok w \<Longrightarrow> registry_ok (snd (snd (initTask_try env task ref w)))"
  by (simp add: initTask_try_def Let_def split_beta registry_ok_newTerminal registry_ok_start
      registry_ok_activateTerminal split: option.splits sum.splits)

lemma registry_ok_initLoop:
  "registry_ok w \<Longrightarrow> registry_ok (snd (initLoop env tasks ref w))"
proof (induction tasks arbitrary: ref w)
  case Nil
  then show ?case by simp
next
  case (Cons task tasks)
  have "registry_ok (snd (snd (initTask_try env task ref w)))"
    using Cons.prems by (rule registry_ok_initTask_try)
  then show ?case
    using Cons.IH Cons.prems by (simp add: split_beta split: option.splits)
qed

lemma registry_ok_initTerminals:
  "registry_ok w \<Longrightarrow> registry_ok (snd (initTerminals env fetched w))"
  by (simp add: initTerminals_def Let_def split_beta registry_ok_suspend registry_ok_initLoop
      registry_ok_updateTerminals registry_ok_newTerminal registry_ok_start_call
      registry_ok_open_terminal split: option.splits sum.splits)

lemma registry_ok_bootstrap: "registry_ok w \<Longrightarrow> registry_ok (bootstrap env fetched w)"
  by (simp add: bootstrap_def split_beta registry_ok_initTerminals split: option.splits)

lemma registry_ok_react: "registry_ok w \<Longrightarrow> registry_ok (react env inp w)"
  by (cases inp) (simp_all add: registry_ok_bootstrap registry_ok_updateTerminals
      registry_ok_ui_step)

lemma registry_ok_run: "registry_ok w \<Longrightarrow> registry_ok (run env inputs w)"
  unfolding run_def by (induction inputs arbitrary: w) (simp_all add: registry_ok_react)

lemma registry_ok_initial: "registry_ok initial"
  by (simp add: registry_ok_def initial_def)

lemmas step_defs = run_def bootstrap_def initTerminals_def initTask_try_def updateTask_try_def
  newTerminal_def start_def start_call_def activateTerminal_def executeCommand_def dispose_def
  open_terminal_def create_widget_def dispose_widget_def user_close_def suspend_def onDidCreateTerminal_def
  onDidDispose_def onTerminalDidClose_def emit_def console_error_def now_def initial_def
  task_options_def no_options_def attach_args_def is_task_terminal_def toTerminalId_def idPrefix_def
  quiet_def failing_at_def build_task_def bare_task_def Let_def

section \<open>A task without presentation\<close>

text \<open>
  C10. In the creation loop of the bootstrap pass, for a task that is not CLOSED, has no
  terminal bound to its identity and has no presentation, the try block throws a
  TypeError before any terminal is requested; the error is logged, no widget is allocated
  and the registry is unchanged, and the loop continues with the remaining tasks and the
  same \<^verbatim>\<open>ref\<close>.
\<close>

theorem missing_presentation_is_caught:
  assumes "presentation task = None" and "state task \<noteq> CLOSED"
    and "taskTerminals w (toTerminalId (task_id task)) = None"
  shows "initTask_try env task ref w = (Some TypeError, ref, w) \<and>
    initLoop env (task # tasks) ref w =
      initLoop env tasks ref
        (console_error ''Failed to start Gitpod task terminal:'' (Some TypeError) w) \<and>
    allocated (console_error ''Failed to start Gitpod task terminal:'' (Some TypeError) w)
      = allocated w \<and>
    taskTerminals (console_error ''Failed to start Gitpod task terminal:'' (Some TypeError) w)
      = taskTerminals w"
  using assms by (simp add: initTask_try_def)

text \<open>
  The theorem at a task without presentation, followed by the running task: the error is
  logged and the second task gets its terminal.
\<close>

theorem missing_presentation_is_caught_witness:
  "presentation bare_task = None \<and> state bare_task \<noteq> CLOSED \<and>
   taskTerminals initial (toTerminalId (task_id bare_task)) = None \<and>
   initTask_try quiet bare_task None initial = (Some TypeError, None, initial) \<and>
   trace (snd (initLoop quiet [bare_task, build_task] None initial)) =
     [ConsoleError ''Failed to start Gitpod task terminal:'' (Some TypeError),
      NewTerminal (task_options ''gitpod-task-terminal:t1''
         \<lparr>name = ''build'', openIn = None, openMode = None\<rparr>),
      Start 0, ActivateTerminal 0 None ''bottom'' ''tab-after'']"
  using missing_presentation_is_caught [of bare_task initial quiet None "[build_task]"]
  by (simp add: step_defs)

section \<open>The events each step appends\<close>

lemma appends_after_emit: "P e \<Longrightarrow> appends P (emit e w) w' \<Longrightarrow> appends P w w'"
  by (rule appends_emit_trans)

lemma trace_dispose_widget [simp]: "trace (dispose_widget a w) = trace w"
  by (simp add: dispose_widget_def Let_def)

lemma trace_create_widget [simp]: "trace (snd (create_widget env opts w)) = trace w"
  by (simp add: create_widget_def onDidCreateTerminal_def Let_def)

lemma appends_onTerminalDidClose:
  "(\<And>e. ambient e \<Longrightarrow> P e) \<Longrightarrow> appends P w (onTerminalDidClose env a w)"
  by (simp add: onTerminalDidClose_def console_error_def appends_emit ambient_def)

lemma appends_user_close:
  assumes "\<And>e. ambient e \<Longrightarrow> P e"
  shows "appends P w (user_close env a w)"
proof -
  have 1: "appends P w (onTerminalDidClose env a w)"
    by (rule appends_onTerminalDidClose) (rule assms)
  have 2: "appends P (onTerminalDidClose env a w) (dispose_widget a (onTerminalDidClose env a w))"
    by (rule appends_same_trace) simp
  have "appends P w (dispose_widget a (onTerminalDidClose env a w))"
    using 1 2 by (rule appends_trans)
  moreover have "appends P w (dispose_widget a w)"
    by (rule appends_same_trace) simp
  ultimately show ?thesis
    by (simp add: user_close_def)
qed

lemma appends_ui_step:
  assumes "\<And>e. ambient e \<Longrightarrow> P e"
  shows "appends P w (ui_step env e w)"
proof -
  have ui: "P (Ui e)"
    by (rule assms) (simp add: ambient_def)
  then have first: "appends P w (emit (Ui e) w)"
    by (simp add: appends_emit)
  show ?thesis
  proof (cases e)
    case (UserClose a)
    have "appends P (emit (Ui e) w) (user_close env a (emit (Ui e) w))"
      by (rule appends_user_close) (rule assms)
    with first have "appends P w (user_close env a (emit (Ui e) w))"
      by (rule appends_trans)
    with UserClose show ?thesis by simp
  next
    case (DisposeWidget a)
    have "appends P (emit (Ui e) w) (dispose_widget a (emit (Ui e) w))"
      by (rule appends_same_trace) simp
    with first have "appends P w (dispose_widget a (emit (Ui e) w))"
      by (rule appends_trans)
    with DisposeWidget show ?thesis by simp
  next
    case (CreateTerminal opts)
    have "appends P (emit (Ui e) w) (snd (create_widget env opts (emit (Ui e) w)))"
      by (rule appends_same_trace) simp
    with first have "appends P w (snd (create_widget env opts (emit (Ui e) w)))"
      by (rule appends_trans)
    with CreateTerminal show ?thesis by simp
  qed
qed

lemma appends_fold_ui:
  assumes "\<And>e. ambient e \<Longrightarrow> P e"
  shows "appends P w (fold (ui_step env) es w)"
proof (induction es arbitrary: w)
  case Nil
  show ?case by simp
next
  case (Cons e es)
  have "appends P w (ui_step env e w)"
    by (rule appends_ui_step) (rule assms)
  then have "appends P w (fold (ui_step env) es (ui_step env e w))"
    using Cons.IH by (rule appends_trans)
  then show ?case by simp
qed

lemma appends_suspend:
  assumes "\<And>e. ambient e \<Longrightarrow> P e"
  shows "appends P w (suspend env w)"
  unfolding suspend_def by (rule appends_fold_ui) (rule assms)

lemma appends_then_suspend:
  assumes "\<And>e. ambient e \<Longrightarrow> P e" and "appends P w w'"
  shows "appends P w (suspend env w')"
proof -
  have "appends P w' (suspend env w')"
    by (rule appends_suspend) (rule assms(1))
  with assms(2) show ?thesis
    by (rule appends_trans)
qed

lemma appends_newTerminal:
  assumes "\<And>e. ambient e \<Longrightarrow> P e" and "P (NewTerminal opts)"
  shows "appends P w (snd (newTerminal env opts w))"
proof -
  have first: "appends P w (emit (NewTerminal opts) w)"
    using assms(2) by (simp add: appends_emit)
  then have failed: "appends P w (suspend env (emit (NewTerminal opts) w))"
    using assms(1) by (simp add: appends_then_suspend)
  have "appends P (emit (NewTerminal opts) w)
          (snd (create_widget env opts (emit (NewTerminal opts) w)))"
    by (rule appends_same_trace) simp
  with first have "appends P w (snd (create_widget env opts (emit (NewTerminal opts) w)))"
    by (rule appends_trans)
  then have "appends P w (suspend env (snd (create_widget env opts (emit (NewTerminal opts) w))))"
    using assms(1) by (simp add: appends_then_suspend)
  with failed show ?thesis
    by (simp add: newTerminal_def Let_def split_beta)
qed

lemma appends_start_call:
  "P (Start a) \<Longrightarrow> appends P w (snd (start_call env a w))"
  by (simp add: start_call_def Let_def appends_def)

lemma appends_start:
  assumes "\<And>e. ambient e \<Longrightarrow> P e" and "P (Start a)"
  shows "appends P w (snd (start env a w))"
proof -
  have "appends P w (snd (start_call env a w))"
    using assms(2) by (simp add: appends_start_call)
  then have "appends P w (suspend env (snd (start_call env a w)))"
    using assms(1) by (simp add: appends_then_suspend)
  then show ?thesis
    by (simp add: start_def split_beta)
qed

lemma appends_activateTerminal:
  "P (ActivateTerminal a ref area mode) \<Longrightarrow>
   appends P w (snd (activateTerminal env a ref area mode w))"
  by (simp add: activateTerminal_def Let_def appends_emit)

lemma appends_executeCommand:
  assumes "\<And>e. ambient e \<Longrightarrow> P e" and "P (ExecuteCommand a cwd args)"
  shows "appends P w (snd (executeCommand env a cwd args w))"
proof -
  have "appends P w (emit (ExecuteCommand a cwd args) w)"
    using assms(2) by (simp add: appends_emit)
  then have "appends P w (suspend env (emit (ExecuteCommand a cwd args) w))"
    using assms(1) by (simp add: appends_then_suspend)
  then show ?thesis
    by (simp add: executeCommand_def Let_def)
qed

lemma appends_dispose: "P (Dispose a) \<Longrightarrow> appends P w (dispose a w)"
  by (simp add: dispose_def appends_def)

lemma appends_open_terminal:
  "P (OpenTerminal a) \<Longrightarrow> appends P w (snd (open_terminal env a w))"
  by (simp add: open_terminal_def Let_def appends_emit)

lemma newTerminal_address:
  "newTerminal env opts w = (Inr a, w1) \<Longrightarrow> a = allocated w"
  by (auto simp: newTerminal_def create_widget_def Let_def split: if_splits)

lemma appends_initTask_try:
  assumes amb: "\<And>e. ambient e \<Longrightarrow> P e"
    and st: "\<And>b. P (Start b)"
    and new: "\<And>p. presentation task = Some p \<Longrightarrow>
                taskTerminals w (toTerminalId (task_id task)) = None \<Longrightarrow>
                P (NewTerminal (task_options (toTerminalId (task_id task)) p))"
    and act: "\<And>p. presentation task = Some p \<Longrightarrow>
                taskTerminals w (toTerminalId (task_id task)) = None \<Longrightarrow>
                P (ActivateTerminal (allocated w) ref (js_or (openIn p) ''bottom'')
                     (js_or (openMode p) ''tab-after''))"
  shows "appends P w (snd (snd (initTask_try env task ref w)))"
proof (cases "taskTerminals w (toTerminalId (task_id task))")
  case None
  show ?thesis
  proof (cases "presentation task")
    case no: None
    then show ?thesis using None by (simp add: initTask_try_def)
  next
    case (Some p)
    let ?opts = "task_options (toTerminalId (task_id task)) p"
    obtain r w1 where n: "newTerminal env ?opts w = (r, w1)"
      by (cases "newTerminal env ?opts w")
    have w1: "appends P w w1"
      using appends_newTerminal [of P ?opts w env] amb new [OF Some None] n by simp
    show ?thesis
    proof (cases r)
      case (Inl e)
      then show ?thesis
        using None Some n w1 by (simp add: initTask_try_def)
    next
      case (Inr a)
      then have a: "a = allocated w"
        using n newTerminal_address by blast
      obtain r2 w2 where s: "start env a w1 = (r2, w2)"
        by (cases "start env a w1")
      have "appends P w1 w2"
        using appends_start [of P a w1 env] amb st s by simp
      with w1 have w2: "appends P w w2"
        by (rule appends_trans)
      show ?thesis
      proof (cases r2)
        case failed: (Some e)
        then show ?thesis
          using None Some n Inr s w2 by (simp add: initTask_try_def)
      next
        case started: None
        let ?act = "activateTerminal env a ref (js_or (openIn p) ''bottom'')
                      (js_or (openMode p) ''tab-after'') w2"
        have "appends P w2 (snd ?act)"
          using act [OF Some None] a by (simp add: appends_activateTerminal)
        with w2 have "appends P w (snd ?act)"
          by (rule appends_trans)
        then show ?thesis
          using None Some n Inr s started
          by (simp add: initTask_try_def split_beta split: option.splits)
      qed
    qed
  qed
next
  case (Some a)
  have "appends P w (snd (start env a w))"
    using appends_start [of P a w env] amb st by simp
  then show ?thesis
    using Some by (simp add: initTask_try_def split_beta split: option.splits)
qed

lemma appends_updateTask_try:
  assumes amb: "\<And>e. ambient e \<Longrightarrow> P e"
    and dis: "\<And>a. taskTerminals w (toTerminalId (task_id task)) = Some a \<Longrightarrow>
                state task = CLOSED \<Longrightarrow> P (Dispose a)"
    and att: "\<And>a. taskTerminals w (toTerminalId (task_id task)) = Some a \<Longrightarrow>
                state task = RUNNING \<Longrightarrow> \<not> truthy (remoteTerminal (widgets w a)) \<Longrightarrow>
                P (ExecuteCommand a ''/workspace'' (attach_args (terminal task)))"
  shows "appends P w (snd (updateTask_try env task w))"
proof (cases "taskTerminals w (toTerminalId (task_id task))")
  case None
  then show ?thesis by (simp add: updateTask_try_def)
next
  case (Some a)
  let ?w1 = "w\<lparr>widgets := (widgets w)(a := (widgets w a)\<lparr>remoteTerminal := terminal task\<rparr>)\<rparr>"
  have assign: "appends P w ?w1"
    by (rule appends_same_trace) simp
  have "appends P w (snd (executeCommand env a ''/workspace'' (attach_args (terminal task)) ?w1))"
    if "state task = RUNNING" and "\<not> truthy (remoteTerminal (widgets w a))"
  proof -
    have "appends P ?w1 (snd (executeCommand env a ''/workspace'' (attach_args (terminal task)) ?w1))"
      using appends_executeCommand [of P a "''/workspace''" "attach_args (terminal task)" ?w1 env]
        amb att [OF Some that] by simp
    with assign show ?thesis
      by (rule appends_trans)
  qed
  then show ?thesis
    using Some dis [OF Some] by (auto simp: updateTask_try_def Let_def appends_dispose)
qed

text \<open>Loops, for predicates that do not depend on the world.\<close>

lemma appends_updateTerminals:
  assumes amb: "\<And>e. ambient e \<Longrightarrow> P e"
    and "\<And>a. P (Dispose a)"
    and "\<And>a cwd args. P (ExecuteCommand a cwd args)"
    and err: "\<And>m e. P (ConsoleError m e)"
  shows "appends P w (snd (updateTerminals env tasks w))"
proof (induction tasks arbitrary: w)
  case Nil
  show ?case by simp
next
  case (Cons task tasks)
  obtain r w1 where step: "updateTask_try env task w = (r, w1)"
    by (cases "updateTask_try env task w")
  have w1: "appends P w w1"
    using appends_updateTask_try [of P w task env] assms(1-3) step by simp
  show ?case
  proof (cases r)
    case None
    then show ?thesis
      using step appends_trans [OF w1 Cons.IH] by simp
  next
    case (Some e)
    let ?w2 = "console_error ''Failed to update Gitpod task terminal:'' (Some e) w1"
    have "appends P w1 ?w2"
      using err by (simp add: console_error_def appends_emit)
    with w1 have "appends P w ?w2"
      by (rule appends_trans)
    then show ?thesis
      using step Some appends_trans [OF _ Cons.IH] by simp
  qed
qed

lemma appends_initLoop:
  assumes amb: "\<And>e. ambient e \<Longrightarrow> P e"
    and st: "\<And>b. P (Start b)"
    and new: "\<And>t p. t \<in> set tasks \<Longrightarrow> state t \<noteq> CLOSED \<Longrightarrow> presentation t = Some p \<Longrightarrow>
                P (NewTerminal (task_options (toTerminalId (task_id t)) p))"
    and act: "\<And>a r area mode. P (ActivateTerminal a r area mode)"
    and err: "\<And>m e. P (ConsoleError m e)"
  shows "appends P w (snd (initLoop env tasks ref w))"
  using new
proof (induction tasks arbitrary: ref w)
  case Nil
  show ?case by simp
next
  case (Cons task tasks)
  have IH: "appends P w' (snd (initLoop env tasks ref' w'))" for ref' w'
    using Cons.IH Cons.prems by simp
  show ?case
  proof (cases "state task = CLOSED")
    case True
    then show ?thesis using IH by simp
  next
    case False
    obtain r ref1 w1 where step: "initTask_try env task ref w = (r, ref1, w1)"
      by (cases "initTask_try env task ref w")
    have w1: "appends P w w1"
      using appends_initTask_try [of P task w ref env] amb st act Cons.prems [of task] False step
      by simp
    show ?thesis
    proof (cases r)
      case None
      then show ?thesis
        using False step appends_trans [OF w1 IH] by simp
    next
      case (Some e)
      let ?w2 = "console_error ''Failed to start Gitpod task terminal:'' (Some e) w1"
      have "appends P w1 ?w2"
        using err by (simp add: console_error_def appends_emit)
      with w1 have "appends P w ?w2"
        by (rule appends_trans)
      then show ?thesis
        using False step Some appends_trans [OF _ IH] by simp
    qed
  qed
qed

lemma appends_initTerminals_gen:
  assumes amb: "\<And>e. ambient e \<Longrightarrow> P e"
    and st: "\<And>b. P (Start b)"
    and new: "\<And>t p. t \<in> set (payload (Layout fetched)) \<Longrightarrow> state t \<noteq> CLOSED \<Longrightarrow>
                presentation t = Some p \<Longrightarrow>
                P (NewTerminal (task_options (toTerminalId (task_id t)) p))"
    and act: "\<And>a r area mode. P (ActivateTerminal a r area mode)"
    and err: "\<And>m e. P (ConsoleError m e)"
    and upd: "\<And>tasks w1. fetched = Inr tasks \<Longrightarrow> evolves w w1 \<Longrightarrow>
                appends P w1 (snd (updateTerminals env tasks w1))"
    and get: "P GetTasks"
    and fallback: "P (NewTerminal no_options)"
    and opn: "\<And>a. P (OpenTerminal a)"
  shows "appends P w (snd (initTerminals env fetched w))"
proof -
  let ?w0 = "suspend env (emit GetTasks w)"
  have w0: "appends P w ?w0"
    using amb get by (simp add: appends_then_suspend appends_emit)
  have e0: "evolves w ?w0"
    by (rule evolves_then_suspend) simp
  show ?thesis
  proof (cases fetched)
    case (Inl e)
    then show ?thesis using w0 by (simp add: initTerminals_def Let_def)
  next
    case (Inr tasks)
    let ?w1 = "snd (initLoop env tasks None ?w0)"
    let ?w2 = "snd (updateTerminals env tasks ?w1)"
    let ?n = "newTerminal env no_options ?w2"
    have "appends P ?w0 ?w1"
      using appends_initLoop [of P tasks ?w0 env None] amb st new act err Inr by simp
    with w0 have w1: "appends P w ?w1"
      by (rule appends_trans)
    have "evolves w ?w1"
      using e0 evolves_initLoop by (rule evolves_trans)
    then have "appends P ?w1 ?w2"
      using upd [OF Inr] by simp
    with w1 have w2: "appends P w ?w2"
      by (rule appends_trans)
    have "appends P ?w2 (snd ?n)"
      using appends_newTerminal [of P no_options ?w2 env] amb fallback by simp
    with w2 have w3: "appends P w (snd ?n)"
      by (rule appends_trans)
    have w4: "appends P w (snd (open_terminal env a (snd (start_call env a (snd ?n)))))" for a
    proof -
      have "appends P (snd ?n) (snd (start_call env a (snd ?n)))"
        using st by (simp add: appends_start_call)
      with w3 have "appends P w (snd (start_call env a (snd ?n)))"
        by (rule appends_trans)
      moreover have "appends P (snd (start_call env a (snd ?n)))
                       (snd (open_terminal env a (snd (start_call env a (snd ?n)))))"
        using opn by (simp add: appends_open_terminal)
      ultimately show ?thesis
        by (rule appends_trans)
    qed
    show ?thesis
      using Inr w2 w3 w4
      by (simp add: initTerminals_def Let_def split_beta split: option.splits sum.splits)
  qed
qed

lemma appends_bootstrap_gen:
  assumes amb: "\<And>e. ambient e \<Longrightarrow> P e"
    and st: "\<And>b. P (Start b)"
    and new: "\<And>t p. t \<in> set (payload (Layout fetched)) \<Longrightarrow> state t \<noteq> CLOSED \<Longrightarrow>
                presentation t = Some p \<Longrightarrow>
                P (NewTerminal (task_options (toTerminalId (task_id t)) p))"
    and act: "\<And>a r area mode. P (ActivateTerminal a r area mode)"
    and err: "\<And>m e. P (ConsoleError m e)"
    and upd: "\<And>tasks w1. fetched = Inr tasks \<Longrightarrow> evolves w w1 \<Longrightarrow>
                appends P w1 (snd (updateTerminals env tasks w1))"
    and get: "P GetTasks"
    and fallback: "P (NewTerminal no_options)"
    and opn: "\<And>a. P (OpenTerminal a)"
  shows "appends P w (bootstrap env fetched w)"
proof -
  let ?w1 = "snd (initTerminals env fetched w)"
  have w1: "appends P w ?w1"
    using appends_initTerminals_gen [of P fetched w env] assms by simp
  have "appends P ?w1 (console_error m e ?w1)" for m e
    using err by (simp add: console_error_def appends_emit)
  with w1 have "appends P w (console_error m e ?w1)" for m e
    using appends_trans by blast
  then show ?thesis
    using w1 by (simp add: bootstrap_def split_beta split: option.splits)
qed

lemma appends_bootstrap:
  assumes amb: "\<And>e. ambient e \<Longrightarrow> P e"
    and st: "\<And>b. P (Start b)"
    and new: "\<And>t p. t \<in> set (payload (Layout fetched)) \<Longrightarrow> state t \<noteq> CLOSED \<Longrightarrow>
                presentation t = Some p \<Longrightarrow>
                P (NewTerminal (task_options (toTerminalId (task_id t)) p))"
    and act: "\<And>a r area mode. P (ActivateTerminal a r area mode)"
    and err: "\<And>m e. P (ConsoleError m e)"
    and dis: "\<And>a. P (Dispose a)"
    and exe: "\<And>a cwd args. P (ExecuteCommand a cwd args)"
    and get: "P GetTasks"
    and fallback: "P (NewTerminal no_options)"
    and opn: "\<And>a. P (OpenTerminal a)"
  shows "appends P w (bootstrap env fetched w)"
proof -
  have "appends P w1 (snd (updateTerminals env tasks w1))" for tasks w1
    using appends_updateTerminals [of P w1 env tasks] amb dis exe err by simp
  then show ?thesis
    using appends_bootstrap_gen [of P fetched w env] amb st new act err get fallback opn
    by simp
qed

lemma appends_react:
  assumes amb: "\<And>e. ambient e \<Longrightarrow> P e"
    and st: "\<And>b. P (Start b)"
    and new: "\<And>t p. t \<in> set (payload inp) \<Longrightarrow> state t \<noteq> CLOSED \<Longrightarrow>
                presentation t = Some p \<Longrightarrow>
                P (NewTerminal (task_options (toTerminalId (task_id t)) p))"
    and act: "\<And>a r area mode. P (ActivateTerminal a r area mode)"
    and err: "\<And>m e. P (ConsoleError m e)"
    and dis: "\<And>a. P (Dispose a)"
    and exe: "\<And>a cwd args. P (ExecuteCommand a cwd args)"
    and get: "P GetTasks"
    and fallback: "P (NewTerminal no_options)"
    and opn: "\<And>a. P (OpenTerminal a)"
  shows "appends P w (react env inp w)"
proof (cases inp)
  case (Layout fetched)
  then show ?thesis
    using appends_bootstrap [of P fetched w env] assms by simp
next
  case (Change tasks)
  then show ?thesis
    using appends_updateTerminals [of P w env tasks] amb dis exe err by simp
next
  case (Event e)
  then show ?thesis
    using appends_ui_step [of P w env e] amb by simp
qed

lemma dispose_disposes: "isDisposed (widgets (dispose a w) a)"
  by (simp add: dispose_def dispose_widget_def Let_def)

lemma allocated_dispose [simp]: "allocated (dispose a w) = allocated w"
  by (simp add: dispose_def dispose_widget_def Let_def)

section \<open>Closed tasks\<close>

text \<open>
  C4. A task observed with state CLOSED is skipped by the creation loop of the bootstrap
  pass. The update loop skips it when no terminal is bound to its derived identity, and
  otherwise disposes the bound terminal, allocating nothing. And no pass, bootstrap or
  update, whose payload shows the task's id only as CLOSED requests a terminal with its
  derived identity.
\<close>

theorem closed_task_creates_no_terminal:
  assumes "state task = CLOSED"
  shows "initLoop env (task # tasks) ref w = initLoop env tasks ref w \<and>
    (taskTerminals w (toTerminalId (task_id task)) = None \<longrightarrow>
       updateTask_try env task w = (None, w)) \<and>
    (\<forall>a. taskTerminals w (toTerminalId (task_id task)) = Some a \<longrightarrow>
       updateTask_try env task w = (None, dispose a w) \<and>
       isDisposed (widgets (dispose a w) a) \<and> allocated (dispose a w) = allocated w) \<and>
    ((\<forall>t\<in>set (payload inp). task_id t = task_id task \<longrightarrow> state t = CLOSED) \<longrightarrow>
       appends (\<lambda>e. \<not> requests (toTerminalId (task_id task)) e) w' (react env inp w'))"
proof -
  have "appends (\<lambda>e. \<not> requests (toTerminalId (task_id task)) e) w' (react env inp w')"
    if "\<forall>t\<in>set (payload inp). task_id t = task_id task \<longrightarrow> state t = CLOSED"
    using that
    by (intro appends_react)
       (auto simp: requests_def ambient_def no_options_def task_options_def)
  then show ?thesis
    using assms by (simp add: updateTask_try_def dispose_disposes)
qed

lemmas scenario_defs = step_defs closed_task_def attached_world_def

text \<open>
  The theorem at the closed task: without a terminal it is skipped; with the terminal of
  the attached world it is disposed and unregistered; the bootstrap pass on the closed
  task alone requests only the fallback terminal.
\<close>

theorem closed_task_creates_no_terminal_witness:
  "state closed_task = CLOSED \<and>
   taskTerminals initial (toTerminalId (task_id closed_task)) = None \<and>
   updateTask_try quiet closed_task initial = (None, initial) \<and>
   initLoop quiet [closed_task] None initial = (None, initial) \<and>
   taskTerminals attached_world (toTerminalId (task_id closed_task)) = Some 0 \<and>
   updateTask_try quiet closed_task attached_world = (None, dispose 0 attached_world) \<and>
   taskTerminals (dispose 0 attached_world) (toTerminalId (task_id closed_task)) = None \<and>
   allocated (dispose 0 attached_world) = 1 \<and>
   trace (react quiet (Layout (Inr [closed_task])) initial) =
     [GetTasks, NewTerminal no_options, Start 0, OpenTerminal 0]"
proof -
  have closed: "state closed_task = CLOSED"
    by (simp add: closed_task_def)
  have bound: "taskTerminals attached_world (toTerminalId (task_id closed_task)) = Some 0"
    by (simp add: scenario_defs)
  have unbound: "taskTerminals initial (toTerminalId (task_id closed_task)) = None"
    by (simp add: initial_def)
  show ?thesis
    using closed bound unbound
      closed_task_creates_no_terminal [OF closed, of quiet "[]" None initial
        "Layout (Inr [closed_task])" initial]
      closed_task_creates_no_terminal [OF closed, of quiet "[]" None attached_world
        "Layout (Inr [closed_task])" initial]
    by (simp add: scenario_defs)
qed

section \<open>Failure isolation\<close>

lemma ambient_not_call: "ambient e \<Longrightarrow> \<not> is_call e"
  by (cases e) (simp_all add: ambient_def is_call_def)

lemma caught_ambient: "list_all ambient evs \<Longrightarrow> caught env msg n evs"
  by (induction evs arbitrary: n) (simp_all add: ambient_not_call)

lemma take1_dropWhile_append:
  assumes "take (Suc 0) (dropWhile P xs) = [x]"
  shows "take (Suc 0) (dropWhile P (xs @ ys)) = [x]"
proof -
  have ne: "dropWhile P xs \<noteq> []"
    using assms by (cases "dropWhile P xs") simp_all
  then obtain y where "y \<in> set xs" and "\<not> P y"
    by (auto simp: dropWhile_eq_Nil_conv)
  then have "dropWhile P (xs @ ys) = dropWhile P xs @ ys"
    by (rule dropWhile_append1)
  then show ?thesis
    using assms ne by (cases "dropWhile P xs") simp_all
qed

lemma caught_append:
  "caught env msg n xs \<Longrightarrow> caught env msg (n + length xs) ys \<Longrightarrow> caught env msg n (xs @ ys)"
  by (induction xs arbitrary: n) (simp_all add: take1_dropWhile_append)

lemma log_not_ambient: "\<not> ambient (ConsoleError msg (Some e))"
  by (simp add: ambient_def)

lemma log_not_call: "\<not> is_call (ConsoleError msg x)"
  by (simp add: is_call_def)

lemma dropWhile_ambient_log:
  "list_all ambient amb \<Longrightarrow>
   dropWhile ambient (amb @ ConsoleError msg (Some e) # rest) = ConsoleError msg (Some e) # rest"
  by (induction amb) (simp_all add: log_not_ambient)

lemma caught_call:
  assumes "list_all ambient amb"
  shows "caught env msg n
           (c # amb @ (if fails env n then [ConsoleError msg (Some CallFailed)] else []))"
proof -
  have amb: "caught env msg (Suc n) amb"
    using assms by (rule caught_ambient)
  have "caught env msg (Suc n + length amb) [ConsoleError msg (Some CallFailed)]"
    by (simp add: log_not_call)
  with amb have "caught env msg (Suc n) (amb @ [ConsoleError msg (Some CallFailed)])"
    by (rule caught_append)
  then show ?thesis
    using assms amb by (simp add: dropWhile_ambient_log)
qed

lemma settled_refl: "settled env msg w None w"
  by (simp add: settled_def)

lemma settled_thrown: "settled env msg w (Some e) w"
  by (simp add: settled_def log_not_call)

lemma settled_same_trace: "trace w' = trace w \<Longrightarrow> settled env msg w None w'"
  by (simp add: settled_def)

lemma settled_trans:
  assumes "settled env msg w None w1" and "settled env msg w1 r w2"
  shows "settled env msg w r w2"
proof -
  obtain evs1 where 1: "trace w1 = trace w @ evs1" "caught env msg (now w) evs1"
    using assms(1) by (auto simp: settled_def)
  obtain evs2 where 2: "trace w2 = trace w1 @ evs2"
    "caught env msg (now w1)
       (evs2 @ (case r of None \<Rightarrow> [] | Some e \<Rightarrow> [ConsoleError msg (Some e)]))"
    using assms(2) by (auto simp: settled_def)
  have "now w1 = now w + length evs1"
    using 1(1) by (simp add: now_def)
  then have "caught env msg (now w)
       (evs1 @ evs2 @ (case r of None \<Rightarrow> [] | Some e \<Rightarrow> [ConsoleError msg (Some e)]))"
    using 1(2) 2(2) by (intro caught_append [of env msg "now w" evs1]) simp_all
  then show ?thesis
    using 1(1) 2(1) by (simp add: settled_def)
qed

lemma settled_log:
  "settled env msg w (Some e) w' \<Longrightarrow> settled env msg w None (console_error msg (Some e) w')"
  by (auto simp: settled_def)

lemma settled_caught:
  "settled env msg w None w' \<Longrightarrow> caught env msg (now w) (appended w w')"
  by (auto simp: settled_def appended_def)

lemma settled_call:
  assumes "trace w' = trace w @ c # amb" and "list_all ambient amb"
  shows "settled env msg w (if fails env (now w) then Some CallFailed else None) w'"
  using assms caught_call [OF assms(2), of env msg "now w" c]
  by (auto simp: settled_def)

lemma trace_suspend:
  "\<exists>amb. trace (suspend env w) = trace w @ amb \<and> list_all ambient amb"
  using appends_suspend [of ambient w env] by (simp add: appends_def)

lemma newTerminal_outcome:
  "fst (newTerminal env opts w) = (if fails env (now w) then Inl CallFailed else Inr (allocated w))"
  by (simp add: newTerminal_def create_widget_def Let_def)

lemma settled_newTerminal:
  "settled env msg w (if fails env (now w) then Some CallFailed else None)
     (snd (newTerminal env opts w))"
proof -
  obtain amb1 where 1: "trace (suspend env (emit (NewTerminal opts) w))
      = trace w @ NewTerminal opts # amb1" "list_all ambient amb1"
    using trace_suspend [of env "emit (NewTerminal opts) w"] by auto
  obtain amb2 where 2: "trace (suspend env (snd (create_widget env opts (emit (NewTerminal opts) w))))
      = trace w @ NewTerminal opts # amb2" "list_all ambient amb2"
    using trace_suspend [of env "snd (create_widget env opts (emit (NewTerminal opts) w))"] by auto
  show ?thesis
    using settled_call [OF 1, of env msg] settled_call [OF 2, of env msg]
    by (simp add: newTerminal_def Let_def split_beta split: if_splits)
qed

lemma start_outcome:
  "fst (start env a w) = (if fails env (now w) then Some CallFailed else None)"
  by (simp add: start_def start_call_def Let_def split_beta)

lemma settled_start:
  "settled env msg w (fst (start env a w)) (snd (start env a w))"
proof -
  have "trace (snd (start_call env a w)) = trace w @ [Start a]"
    by (simp add: start_call_def Let_def)
  then obtain amb where "trace (suspend env (snd (start_call env a w))) = trace w @ Start a # amb"
    and "list_all ambient amb"
    using trace_suspend [of env "snd (start_call env a w)"] by auto
  then have "settled env msg w (if fails env (now w) then Some CallFailed else None)
      (suspend env (snd (start_call env a w)))"
    by (rule settled_call)
  then show ?thesis
    by (simp add: start_def start_call_def Let_def split_beta split: if_splits)
qed

lemma settled_activateTerminal:
  "settled env msg w (fst (activateTerminal env a ref area mode w))
     (snd (activateTerminal env a ref area mode w))"
  using settled_call [of "emit (ActivateTerminal a ref area mode) w" w
      "ActivateTerminal a ref area mode" "[]" env msg]
  by (simp add: activateTerminal_def Let_def split: if_splits)

lemma settled_executeCommand:
  "settled env msg w (fst (executeCommand env a cwd args w))
     (snd (executeCommand env a cwd args w))"
proof -
  obtain amb where "trace (suspend env (emit (ExecuteCommand a cwd args) w))
      = trace w @ ExecuteCommand a cwd args # amb" and "list_all ambient amb"
    using trace_suspend [of env "emit (ExecuteCommand a cwd args) w"] by auto
  then have "settled env msg w (if fails env (now w) then Some CallFailed else None)
      (suspend env (emit (ExecuteCommand a cwd args) w))"
    by (rule settled_call)
  then show ?thesis
    by (simp add: executeCommand_def Let_def split: if_splits)
qed

lemma settled_dispose: "settled env msg w None (dispose a w)"
  by (simp add: settled_def dispose_def is_call_def)

lemma settled_initTask_try:
  "settled env msg w (fst (initTask_try env task ref w)) (snd (snd (initTask_try env task ref w)))"
proof (cases "taskTerminals w (toTerminalId (task_id task))")
  case None
  show ?thesis
  proof (cases "presentation task")
    case no: None
    then show ?thesis using None by (simp add: initTask_try_def settled_thrown)
  next
    case (Some p)
    let ?opts = "task_options (toTerminalId (task_id task)) p"
    let ?w1 = "snd (newTerminal env ?opts w)"
    have n: "settled env msg w (if fails env (now w) then Some CallFailed else None) ?w1"
      by (rule settled_newTerminal)
    show ?thesis
    proof (cases "fails env (now w)")
      case True
      then show ?thesis
        using None Some n newTerminal_outcome [of env ?opts w]
        by (simp add: initTask_try_def split_beta split: sum.splits)
    next
      case False
      let ?a = "allocated w"
      let ?w2 = "snd (start env ?a ?w1)"
      have n1: "settled env msg w None ?w1"
        using n False by simp
      have s: "settled env msg w (fst (start env ?a ?w1)) ?w2"
        using n1 settled_start by (rule settled_trans)
      show ?thesis
      proof (cases "fst (start env ?a ?w1)")
        case failed: (Some e)
        then show ?thesis
          using None Some False s newTerminal_outcome [of env ?opts w]
          by (simp add: initTask_try_def split_beta split: sum.splits)
      next
        case started: None
        let ?act = "activateTerminal env ?a ref (js_or (openIn p) ''bottom'')
                      (js_or (openMode p) ''tab-after'') ?w2"
        have "settled env msg w None ?w2"
          using s started by simp
        then have "settled env msg w (fst ?act) (snd ?act)"
          using settled_activateTerminal by (rule settled_trans)
        then show ?thesis
          using None Some False started newTerminal_outcome [of env ?opts w]
          by (cases "fst ?act") (simp_all add: initTask_try_def Let_def split_beta)
      qed
    qed
  qed
next
  case (Some a)
  have "settled env msg w (fst (start env a w)) (snd (start env a w))"
    by (rule settled_start)
  then show ?thesis
    using Some
    by (cases "fst (start env a w)") (simp_all add: initTask_try_def split_beta settled_refl)
qed

lemma settled_initLoop:
  "settled env ''Failed to start Gitpod task terminal:'' w None (snd (initLoop env tasks ref w))"
proof (induction tasks arbitrary: ref w)
  case Nil
  show ?case by (simp add: settled_refl)
next
  case (Cons task tasks)
  let ?msg = "''Failed to start Gitpod task terminal:''"
  show ?case
  proof (cases "state task = CLOSED")
    case True
    then show ?thesis using Cons.IH by simp
  next
    case False
    obtain r ref1 w1 where step: "initTask_try env task ref w = (r, ref1, w1)"
      by (cases "initTask_try env task ref w")
    have w1: "settled env ?msg w r w1"
      using settled_initTask_try [of env ?msg w task ref] step by simp
    show ?thesis
    proof (cases r)
      case None
      then show ?thesis
        using False step settled_trans [OF _ Cons.IH] w1 by simp
    next
      case (Some e)
      have "settled env ?msg w None (console_error ?msg (Some e) w1)"
        using w1 Some by (simp add: settled_log)
      then show ?thesis
        using False step Some settled_trans [OF _ Cons.IH] by simp
    qed
  qed
qed

lemma settled_updateTask_try:
  "settled env msg w (fst (updateTask_try env task w)) (snd (updateTask_try env task w))"
proof (cases "taskTerminals w (toTerminalId (task_id task))")
  case None
  then show ?thesis by (simp add: updateTask_try_def settled_refl)
next
  case (Some a)
  let ?w1 = "w\<lparr>widgets := (widgets w)(a := (widgets w a)\<lparr>remoteTerminal := terminal task\<rparr>)\<rparr>"
  have "settled env msg w None ?w1"
    by (rule settled_same_trace) simp
  then have "settled env msg w (fst (executeCommand env a cwd args ?w1))
      (snd (executeCommand env a cwd args ?w1))" for cwd args
    using settled_executeCommand by (rule settled_trans)
  then show ?thesis
    using Some by (simp add: updateTask_try_def Let_def settled_refl settled_dispose)
qed

lemma settled_updateTerminals:
  "settled env ''Failed to update Gitpod task terminal:'' w None (snd (updateTerminals env tasks w))"
proof (induction tasks arbitrary: w)
  case Nil
  show ?case by (simp add: settled_refl)
next
  case (Cons task tasks)
  let ?msg = "''Failed to update Gitpod task terminal:''"
  obtain r w1 where step: "updateTask_try env task w = (r, w1)"
    by (cases "updateTask_try env task w")
  have w1: "settled env ?msg w r w1"
    using settled_updateTask_try [of env ?msg w task] step by simp
  show ?case
  proof (cases r)
    case None
    then show ?thesis
      using step settled_trans [OF _ Cons.IH] w1 by simp
  next
    case (Some e)
    have "settled env ?msg w None (console_error ?msg (Some e) w1)"
      using w1 Some by (simp add: settled_log)
    then show ?thesis
      using step Some settled_trans [OF _ Cons.IH] by simp
  qed
qed


lemma updateTerminals_never_rejects: "fst (updateTerminals env tasks w) = None"
  by (induction tasks arbitrary: w) (simp_all add: split_beta split: option.splits)

lemma updateTerminals_append:
  "updateTerminals env (tasks @ rest) w = updateTerminals env rest (snd (updateTerminals env tasks w))"
  by (induction tasks arbitrary: w) (simp_all add: split_beta split: option.splits)

lemma initLoop_append:
  "initLoop env (tasks @ rest) ref w =
     (case initLoop env tasks ref w of (r, w1) \<Rightarrow> initLoop env rest r w1)"
  by (induction tasks arbitrary: ref w) (simp_all add: split_beta split: option.splits)

lemma initTask_try_error_keeps_ref:
  "initTask_try env task ref w = (Some e, r, w1) \<Longrightarrow> r = ref"
  by (auto simp: initTask_try_def Let_def split: option.splits sum.splits prod.splits if_splits)

lemma open_terminal_outcome:
  "fst (open_terminal env a w) = (if fails env (now w) then Some CallFailed else None)"
  by (simp add: open_terminal_def Let_def)

lemma initTerminals_rejection:
  assumes "fst (initTerminals env (Inr tasks) w) = Some e"
    and "w2 = snd (updateTerminals env tasks
       (snd (initLoop env tasks None (suspend env (emit GetTasks w)))))"
  shows "e = CallFailed \<and> all_terminals w2 = [] \<and>
    (fails env (now w2) \<or>
     fails env (now (snd (start_call env (allocated w2) (snd (newTerminal env no_options w2))))))"
proof -
  have none: "fst (updateTerminals env tasks
       (snd (initLoop env tasks None (suspend env (emit GetTasks w))))) = None"
    by (rule updateTerminals_never_rejects)
  show ?thesis
    using assms none newTerminal_outcome [of env no_options w2]
      open_terminal_outcome [of env "allocated w2"
        "snd (start_call env (allocated w2) (snd (newTerminal env no_options w2)))"]
    by (auto simp: initTerminals_def Let_def split_beta split: option.splits sum.splits if_splits)
qed

text \<open>
  C7. An update pass never rejects. An error thrown by one task's try block, in the update
  loop or in the creation loop, is logged and the loop continues with the remaining tasks
  (the creation loop with \<^verbatim>\<open>ref\<close> as it was). Both loops process the payload in order.
  In the events that either loop appends, whatever fails and whatever the user interface
  does meanwhile, every failed call (creating, starting, activating or attaching a
  terminal) is followed by the log of that loop's \<^verbatim>\<open>catch\<close>. Once the task list is
  fetched, the bootstrap pass rejects only when no terminal is alive after both loops and
  the fallback terminal cannot be created or cannot be opened: never because of a task.
\<close>

theorem per_task_failure_isolation:
  "fst (updateTerminals env tasks w) = None \<and>
   (\<forall>e w1. updateTask_try env task w = (Some e, w1) \<longrightarrow>
      updateTerminals env (task # tasks) w =
        updateTerminals env tasks
          (console_error ''Failed to update Gitpod task terminal:'' (Some e) w1)) \<and>
   (\<forall>e r w1. state task \<noteq> CLOSED \<longrightarrow> initTask_try env task ref w = (Some e, r, w1) \<longrightarrow>
      r = ref \<and>
      initLoop env (task # tasks) ref w =
        initLoop env tasks ref
          (console_error ''Failed to start Gitpod task terminal:'' (Some e) w1)) \<and>
   updateTerminals env (tasks @ rest) w =
     updateTerminals env rest (snd (updateTerminals env tasks w)) \<and>
   initLoop env (tasks @ rest) ref w =
     (case initLoop env tasks ref w of (r, w1) \<Rightarrow> initLoop env rest r w1) \<and>
   caught env ''Failed to update Gitpod task terminal:'' (now w)
     (appended w (snd (updateTerminals env tasks w))) \<and>
   caught env ''Failed to start Gitpod task terminal:'' (now w)
     (appended w (snd (initLoop env tasks ref w))) \<and>
   (\<forall>e w2. fst (initTerminals env (Inr tasks) w) = Some e \<longrightarrow>
      w2 = snd (updateTerminals env tasks
             (snd (initLoop env tasks None (suspend env (emit GetTasks w))))) \<longrightarrow>
      e = CallFailed \<and> all_terminals w2 = [] \<and>
      (fails env (now w2) \<or>
       fails env (now (snd (start_call env (allocated w2)
                             (snd (newTerminal env no_options w2)))))))"
proof -
  have never: "fst (updateTerminals env tasks w) = None"
    by (rule updateTerminals_never_rejects)
  have update_logs: "\<forall>e w1. updateTask_try env task w = (Some e, w1) \<longrightarrow>
      updateTerminals env (task # tasks) w =
        updateTerminals env tasks
          (console_error ''Failed to update Gitpod task terminal:'' (Some e) w1)"
    by simp
  have init_logs: "\<forall>e r w1. state task \<noteq> CLOSED \<longrightarrow>
      initTask_try env task ref w = (Some e, r, w1) \<longrightarrow>
      r = ref \<and>
      initLoop env (task # tasks) ref w =
        initLoop env tasks ref
          (console_error ''Failed to start Gitpod task terminal:'' (Some e) w1)"
    using initTask_try_error_keeps_ref [of env task ref w] by auto
  have update_order: "updateTerminals env (tasks @ rest) w =
     updateTerminals env rest (snd (updateTerminals env tasks w))"
    by (rule updateTerminals_append)
  have init_order: "initLoop env (tasks @ rest) ref w =
     (case initLoop env tasks ref w of (r, w1) \<Rightarrow> initLoop env rest r w1)"
    by (rule initLoop_append)
  have update_caught: "caught env ''Failed to update Gitpod task terminal:'' (now w)
     (appended w (snd (updateTerminals env tasks w)))"
    by (rule settled_caught) (rule settled_updateTerminals)
  have init_caught: "caught env ''Failed to start Gitpod task terminal:'' (now w)
     (appended w (snd (initLoop env tasks ref w)))"
    by (rule settled_caught) (rule settled_initLoop)
  have rejects: "\<forall>e w2. fst (initTerminals env (Inr tasks) w) = Some e \<longrightarrow>
      w2 = snd (updateTerminals env tasks
             (snd (initLoop env tasks None (suspend env (emit GetTasks w))))) \<longrightarrow>
      e = CallFailed \<and> all_terminals w2 = [] \<and>
      (fails env (now w2) \<or>
       fails env (now (snd (start_call env (allocated w2)
                             (snd (newTerminal env no_options w2))))))"
    using initTerminals_rejection [of env tasks w] by blast
  show ?thesis
    by (intro conjI; fact)
qed



lemmas more_defs = scenario_defs waiting_world_def other_task_def

lemma waiting_world_trace: "now waiting_world = 7"
  by (simp add: more_defs)

text \<open>
  The theorem where calls fail: the attach of the first task fails and the second task is
  attached all the same; the creation, the start or the placement of the first terminal
  fails, is logged, and the second task gets its terminal; the bootstrap pass without
  tasks rejects when the fallback terminal cannot be created or cannot be opened. A trace
  in which the failed start is followed by the log has its failed calls caught; a trace in
  which the block went on after the failed start has not.
\<close>

theorem per_task_failure_isolation_witness:
  "fst (updateTask_try (failing_at 7) build_task waiting_world) = Some CallFailed \<and>
   fst (updateTerminals (failing_at 7) [build_task, other_task\<lparr>state := RUNNING\<rparr>]
          waiting_world) = None \<and>
   appended waiting_world
     (snd (updateTerminals (failing_at 7) [build_task, other_task\<lparr>state := RUNNING\<rparr>]
            waiting_world)) =
     [ExecuteCommand 0 ''/workspace'' (attach_args (Some ''r1'')),
      ConsoleError ''Failed to update Gitpod task terminal:'' (Some CallFailed),
      ExecuteCommand 1 ''/workspace'' (attach_args None)] \<and>
   state build_task \<noteq> CLOSED \<and>
   fst (initTask_try (failing_at 0) build_task None initial) = Some CallFailed \<and>
   trace (snd (initLoop (failing_at 0) [build_task, other_task] None initial)) =
     [NewTerminal (task_options (toTerminalId ''t1'')
        \<lparr>name = ''build'', openIn = None, openMode = None\<rparr>),
      ConsoleError ''Failed to start Gitpod task terminal:'' (Some CallFailed),
      NewTerminal (task_options (toTerminalId ''t2'')
        \<lparr>name = ''serve'', openIn = Some ''right'', openMode = None\<rparr>),
      Start 0, ActivateTerminal 0 None ''right'' ''tab-after''] \<and>
   trace (snd (initLoop (failing_at 1) [build_task, other_task] None initial)) =
     [NewTerminal (task_options (toTerminalId ''t1'')
        \<lparr>name = ''build'', openIn = None, openMode = None\<rparr>),
      Start 0,
      ConsoleError ''Failed to start Gitpod task terminal:'' (Some CallFailed),
      NewTerminal (task_options (toTerminalId ''t2'')
        \<lparr>name = ''serve'', openIn = Some ''right'', openMode = None\<rparr>),
      Start 1, ActivateTerminal 1 None ''right'' ''tab-after''] \<and>
   trace (snd (initLoop (failing_at 2) [build_task, other_task] None initial)) =
     [NewTerminal (task_options (toTerminalId ''t1'')
        \<lparr>name = ''build'', openIn = None, openMode = None\<rparr>),
      Start 0, ActivateTerminal 0 None ''bottom'' ''tab-after'',
      ConsoleError ''Failed to start Gitpod task terminal:'' (Some CallFailed),
      NewTerminal (task_options (toTerminalId ''t2'')
        \<lparr>name = ''serve'', openIn = Some ''right'', openMode = None\<rparr>),
      Start 1, ActivateTerminal 1 None ''right'' ''tab-after''] \<and>
   initTerminals (failing_at 1) (Inr []) initial =
     (Some CallFailed, emit (NewTerminal no_options) (emit GetTasks initial)) \<and>
   fst (initTerminals (failing_at 3) (Inr []) initial) = Some CallFailed \<and>
   trace (bootstrap (failing_at 3) (Inr []) initial) =
     [GetTasks, NewTerminal no_options, Start 0, OpenTerminal 0,
      ConsoleError ''Failed to initizalize Gitpod task terminals:'' (Some CallFailed)] \<and>
   caught (failing_at 1) ''Failed to start Gitpod task terminal:'' 0
     [NewTerminal no_options, Start 0,
      ConsoleError ''Failed to start Gitpod task terminal:'' (Some CallFailed),
      NewTerminal no_options, Start 1, ActivateTerminal 1 None ''right'' ''tab-after''] \<and>
   \<not> caught (failing_at 1) ''Failed to start Gitpod task terminal:'' 0
     [NewTerminal no_options, Start 0, ActivateTerminal 0 None ''bottom'' ''tab-after'',
      NewTerminal no_options, Start 1, ActivateTerminal 1 None ''right'' ''tab-after'']"
proof -
  have attach: "fst (updateTask_try (failing_at 7) build_task waiting_world) = Some CallFailed \<and>
   fst (updateTerminals (failing_at 7) [build_task, other_task\<lparr>state := RUNNING\<rparr>]
          waiting_world) = None \<and>
   appended waiting_world
     (snd (updateTerminals (failing_at 7) [build_task, other_task\<lparr>state := RUNNING\<rparr>]
            waiting_world)) =
     [ExecuteCommand 0 ''/workspace'' (attach_args (Some ''r1'')),
      ConsoleError ''Failed to update Gitpod task terminal:'' (Some CallFailed),
      ExecuteCommand 1 ''/workspace'' (attach_args None)]"
    using per_task_failure_isolation [of "failing_at 7" "[other_task\<lparr>state := RUNNING\<rparr>]"
      waiting_world build_task None "[]"]
    by (simp add: more_defs appended_def)
  have create: "state build_task \<noteq> CLOSED \<and>
   fst (initTask_try (failing_at 0) build_task None initial) = Some CallFailed \<and>
   trace (snd (initLoop (failing_at 0) [build_task, other_task] None initial)) =
     [NewTerminal (task_options (toTerminalId ''t1'')
        \<lparr>name = ''build'', openIn = None, openMode = None\<rparr>),
      ConsoleError ''Failed to start Gitpod task terminal:'' (Some CallFailed),
      NewTerminal (task_options (toTerminalId ''t2'')
        \<lparr>name = ''serve'', openIn = Some ''right'', openMode = None\<rparr>),
      Start 0, ActivateTerminal 0 None ''right'' ''tab-after'']"
    using per_task_failure_isolation [of "failing_at 0" "[other_task]" initial build_task None "[]"]
    by (simp add: more_defs)
  have start: "trace (snd (initLoop (failing_at 1) [build_task, other_task] None initial)) =
     [NewTerminal (task_options (toTerminalId ''t1'')
        \<lparr>name = ''build'', openIn = None, openMode = None\<rparr>),
      Start 0,
      ConsoleError ''Failed to start Gitpod task terminal:'' (Some CallFailed),
      NewTerminal (task_options (toTerminalId ''t2'')
        \<lparr>name = ''serve'', openIn = Some ''right'', openMode = None\<rparr>),
      Start 1, ActivateTerminal 1 None ''right'' ''tab-after'']"
    by (simp add: more_defs)
  have activate: "trace (snd (initLoop (failing_at 2) [build_task, other_task] None initial)) =
     [NewTerminal (task_options (toTerminalId ''t1'')
        \<lparr>name = ''build'', openIn = None, openMode = None\<rparr>),
      Start 0, ActivateTerminal 0 None ''bottom'' ''tab-after'',
      ConsoleError ''Failed to start Gitpod task terminal:'' (Some CallFailed),
      NewTerminal (task_options (toTerminalId ''t2'')
        \<lparr>name = ''serve'', openIn = Some ''right'', openMode = None\<rparr>),
      Start 1, ActivateTerminal 1 None ''right'' ''tab-after'']"
    by (simp add: more_defs)
  have fallback: "initTerminals (failing_at 1) (Inr []) initial =
     (Some CallFailed, emit (NewTerminal no_options) (emit GetTasks initial))"
    using per_task_failure_isolation [of "failing_at 1" "[]" initial build_task None "[]"]
    by (simp add: more_defs)
  have shown: "fst (initTerminals (failing_at 3) (Inr []) initial) = Some CallFailed \<and>
   trace (bootstrap (failing_at 3) (Inr []) initial) =
     [GetTasks, NewTerminal no_options, Start 0, OpenTerminal 0,
      ConsoleError ''Failed to initizalize Gitpod task terminals:'' (Some CallFailed)]"
    by (simp add: more_defs)
  have notion: "caught (failing_at 1) ''Failed to start Gitpod task terminal:'' 0
     [NewTerminal no_options, Start 0,
      ConsoleError ''Failed to start Gitpod task terminal:'' (Some CallFailed),
      NewTerminal no_options, Start 1, ActivateTerminal 1 None ''right'' ''tab-after''] \<and>
   \<not> caught (failing_at 1) ''Failed to start Gitpod task terminal:'' 0
     [NewTerminal no_options, Start 0, ActivateTerminal 0 None ''bottom'' ''tab-after'',
      NewTerminal no_options, Start 1, ActivateTerminal 1 None ''right'' ''tab-after'']"
    by (simp add: failing_at_def quiet_def is_call_def ambient_def)
  show ?thesis
    using attach create start activate fallback shown notion
    by (elim conjE) (intro conjI; assumption)
qed
section \<open>Closing a task terminal\<close>

lemmas latch_defs = more_defs empty_session_task_def empty_attached_world_def

text \<open>
  C6 as stated fails for a terminal attached to a session whose id is the empty string.
  The update pass sets the field to that id and issues the attach command; when the user
  closes the terminal, the field is set, but the callback tests it for truth: no close
  request is issued, and the diagnostic is logged.
\<close>

theorem empty_session_id_gets_no_close_request:
  "appended waiting_world empty_attached_world =
     [ExecuteCommand 0 ''/workspace'' [''/theia/supervisor'', ''terminal'', ''attach'', [], ''-ir'']] \<and>
   remoteTerminal (widgets empty_attached_world 0) = Some [] \<and>
   appended empty_attached_world (ui_step quiet (UserClose 0) empty_attached_world) =
     [Ui (UserClose 0), ConsoleError ''task alias is missing'' None]"
  by (simp add: latch_defs appended_def)

text \<open>
  C6, amended. The close callback of a task terminal. When the field holds a session id
  that is not empty, the close request goes to protocol, \<^verbatim>\<open>//\<close>, host and
  \<^verbatim>\<open>/_supervisor/v1/terminal/close/\<close> followed by that id, and nothing else changes. When
  the field is undefined or holds the empty id, no request is issued and the diagnostic
  \<^verbatim>\<open>task alias is missing\<close> is logged. A user closing a live task terminal runs this
  callback, and then the widget is disposed.
\<close>

theorem close_request_or_diagnostic:
  "(\<forall>r. remoteTerminal (widgets w a) = Some r \<longrightarrow> r \<noteq> [] \<longrightarrow>
      onTerminalDidClose env a w =
        emit (Fetch (protocol env @ ''//'' @ host env @ ''/_supervisor/v1/terminal/close/'' @ r)) w) \<and>
   (\<not> truthy (remoteTerminal (widgets w a)) \<longrightarrow>
      onTerminalDidClose env a w = console_error ''task alias is missing'' None w) \<and>
   (a < allocated w \<longrightarrow> subscribed (widgets w a) \<longrightarrow> \<not> isDisposed (widgets w a) \<longrightarrow>
      ui_step env (UserClose a) w =
        dispose_widget a (onTerminalDidClose env a (emit (Ui (UserClose a)) w)))"
  by (auto simp: onTerminalDidClose_def user_close_def)

text \<open>
  The theorem at an attached terminal, closed by the user, and at a terminal that was
  never attached.
\<close>

theorem close_request_or_diagnostic_witness:
  "remoteTerminal (widgets attached_world 0) = Some ''r1'' \<and>
   appended attached_world (ui_step quiet (UserClose 0) attached_world) =
     [Ui (UserClose 0), Fetch ''https://ws/_supervisor/v1/terminal/close/r1''] \<and>
   \<not> truthy (remoteTerminal (widgets waiting_world 0)) \<and>
   0 < allocated waiting_world \<and> subscribed (widgets waiting_world 0) \<and>
   \<not> isDisposed (widgets waiting_world 0) \<and>
   appended waiting_world (ui_step quiet (UserClose 0) waiting_world) =
     [Ui (UserClose 0), ConsoleError ''task alias is missing'' None]"
  using close_request_or_diagnostic [of attached_world 0 quiet]
    close_request_or_diagnostic [of waiting_world 0 quiet]
  by (simp add: more_defs appended_def)

section \<open>Disposal unregisters\<close>

lemma dispose_widget_unregisters:
  "registry_ok w \<Longrightarrow> taskTerminals (dispose_widget a w) k \<noteq> Some a"
  unfolding registry_ok_def dispose_widget_def onDidDispose_def Let_def
  by auto

lemma user_close_unregisters:
  "registry_ok w \<Longrightarrow> taskTerminals (user_close env a w) k \<noteq> Some a"
proof -
  assume ok: "registry_ok w"
  then have "taskTerminals w k \<noteq> Some a" if "isDisposed (widgets w a)"
    using that by (auto simp: registry_ok_def)
  moreover have "taskTerminals (dispose_widget a (onTerminalDidClose env a w)) k \<noteq> Some a"
    using ok by (intro dispose_widget_unregisters) simp
  moreover have "taskTerminals (dispose_widget a w) k \<noteq> Some a"
    using ok by (rule dispose_widget_unregisters)
  ultimately show ?thesis
    by (simp add: user_close_def)
qed

lemma dispose_unregisters:
  "registry_ok w \<Longrightarrow> taskTerminals (dispose a w) k \<noteq> Some a"
  unfolding dispose_def by (intro dispose_widget_unregisters) simp

text \<open>
  C5. In every world reached from the initial one, by any passes and events in any
  environment, the registry is sound: each entry refers to a widget that is not disposed
  (and has its disposal callback subscribed). Every step keeps the registry sound. And
  after a disposal by any trigger, the widget being disposed from outside, the user
  closing it or the reconciler disposing it for a CLOSED task, no entry refers to the
  disposed widget.
\<close>

theorem disposal_unregisters:
  "registry_ok (run env inputs initial) \<and>
   (registry_ok w \<longrightarrow>
      registry_ok (react env inp w) \<and>
      (\<forall>k. taskTerminals (dispose_widget a w) k \<noteq> Some a) \<and>
      (\<forall>k. taskTerminals (user_close env a w) k \<noteq> Some a) \<and>
      (\<forall>k. taskTerminals (dispose a w) k \<noteq> Some a))"
  using registry_ok_run [OF registry_ok_initial, of env inputs]
  by (simp add: registry_ok_react dispose_widget_unregisters user_close_unregisters
      dispose_unregisters)

text \<open>
  The theorem at the attached world: the terminal is registered and alive, and each of
  the three triggers removes its entry.
\<close>

theorem disposal_unregisters_witness:
  "taskTerminals attached_world (toTerminalId ''t1'') = Some 0 \<and>
   \<not> isDisposed (widgets attached_world 0) \<and>
   registry_ok attached_world \<and>
   taskTerminals (dispose_widget 0 attached_world) (toTerminalId ''t1'') = None \<and>
   taskTerminals (user_close quiet 0 attached_world) (toTerminalId ''t1'') = None \<and>
   taskTerminals (react quiet (Change [closed_task]) attached_world) (toTerminalId ''t1'') = None \<and>
   isDisposed (widgets (react quiet (Change [closed_task]) attached_world) 0) \<and>
   registry_ok (react quiet (Change [closed_task]) attached_world)"
proof -
  have "registry_ok attached_world"
    using disposal_unregisters [of quiet "[Layout (Inr [build_task])]"]
    by (simp add: attached_world_def)
  then show ?thesis
    using disposal_unregisters [of quiet "[]" attached_world "Change [closed_task]" 0]
    by (simp add: more_defs)
qed

section \<open>The attach latch\<close>

lemma latched_evolves: "latched a w \<Longrightarrow> evolves w w' \<Longrightarrow> latched a w'"
  by (auto simp: latched_def evolves_def)

lemma latched_keeps:
  "latched a w \<Longrightarrow> evolves w w' \<Longrightarrow>
   remoteTerminal (widgets w' a) = remoteTerminal (widgets w a)"
  by (auto simp: latched_def evolves_def)

lemma latched_updateTask_try:
  assumes "latched a w"
  shows "appends (\<lambda>e. \<not> attaches a e) w (snd (updateTask_try env task w))"
  using assms
  by (intro appends_updateTask_try) (auto simp: attaches_def ambient_def latched_def)

lemma latched_updateTerminals:
  assumes "latched a w"
  shows "appends (\<lambda>e. \<not> attaches a e) w (snd (updateTerminals env tasks w))"
  using assms
proof (induction tasks arbitrary: w)
  case Nil
  show ?case by simp
next
  case (Cons task tasks)
  let ?P = "\<lambda>e. \<not> attaches a e"
  obtain r w1 where step: "updateTask_try env task w = (r, w1)"
    by (cases "updateTask_try env task w")
  have w1: "appends ?P w w1"
    using latched_updateTask_try [OF Cons.prems, of env task] step by simp
  have l1: "latched a w1"
    using latched_evolves [OF Cons.prems evolves_updateTask_try [of w env task]] step by simp
  show ?case
  proof (cases r)
    case None
    then show ?thesis
      using step appends_trans [OF w1 Cons.IH [OF l1]] by simp
  next
    case (Some e)
    let ?w2 = "console_error ''Failed to update Gitpod task terminal:'' (Some e) w1"
    have "appends ?P w1 ?w2"
      by (simp add: console_error_def appends_emit attaches_def)
    with w1 have w2: "appends ?P w ?w2"
      by (rule appends_trans)
    have "latched a ?w2"
      using l1 by (simp add: latched_def)
    then show ?thesis
      using step Some appends_trans [OF w2 Cons.IH] by simp
  qed
qed

lemma latched_react:
  assumes "latched a w"
  shows "appends (\<lambda>e. \<not> attaches a e) w (react env inp w)"
proof (cases inp)
  case (Layout fetched)
  have "appends (\<lambda>e. \<not> attaches a e) w1 (snd (updateTerminals env tasks w1))"
    if "evolves w w1" for tasks w1
    using latched_updateTerminals [OF latched_evolves [OF assms that]] .
  then have "appends (\<lambda>e. \<not> attaches a e) w (bootstrap env fetched w)"
    by (intro appends_bootstrap_gen) (auto simp: attaches_def ambient_def)
  with Layout show ?thesis by simp
next
  case (Change tasks)
  then show ?thesis
    using latched_updateTerminals [OF assms] by simp
next
  case (Event e)
  have "appends (\<lambda>e. \<not> attaches a e) w (ui_step env e w)"
    by (intro appends_ui_step) (auto simp: attaches_def ambient_def)
  with Event show ?thesis by simp
qed

lemma latched_run:
  assumes "latched a w"
  shows "appends (\<lambda>e. \<not> attaches a e) w (run env inputs w)"
  using assms unfolding run_def
proof (induction inputs arbitrary: w)
  case Nil
  show ?case by simp
next
  case (Cons inp inputs)
  have "latched a (react env inp w)"
    using latched_evolves [OF Cons.prems evolves_react] .
  then have "appends (\<lambda>e. \<not> attaches a e) (react env inp w) (fold (react env) inputs (react env inp w))"
    by (rule Cons.IH)
  with latched_react [OF Cons.prems] show ?case
    using appends_trans by fastforce
qed

text \<open>
  C3 as stated fails for a running task whose remote session id is the empty string. Each
  update pass sets the field of the task's terminal to that id and issues an attach
  command, because the guard of line 128 tests the field for truth; a later pass with
  another session id sets the field again.
\<close>

theorem empty_session_id_is_reattached:
  "remoteTerminal (widgets waiting_world 0) = None \<and>
   remoteTerminal (widgets (run quiet [Change [empty_session_task]] waiting_world) 0) = Some [] \<and>
   appended waiting_world
       (run quiet [Change [empty_session_task], Change [empty_session_task], Change [build_task]]
          waiting_world) =
     [ExecuteCommand 0 ''/workspace'' [''/theia/supervisor'', ''terminal'', ''attach'', [], ''-ir''],
      ExecuteCommand 0 ''/workspace'' [''/theia/supervisor'', ''terminal'', ''attach'', [], ''-ir''],
      ExecuteCommand 0 ''/workspace'' [''/theia/supervisor'', ''terminal'', ''attach'', ''r1'', ''-ir'']] \<and>
   remoteTerminal (widgets
       (run quiet [Change [empty_session_task], Change [empty_session_task], Change [build_task]]
          waiting_world) 0) = Some ''r1''"
  by (simp add: latch_defs appended_def)

text \<open>
  C3, amended. From a world in which the field \<^verbatim>\<open>remoteTerminal\<close> of a terminal holds a
  session id that is not empty, no sequence of bootstrap passes, update passes and
  user-interface events, in any environment, changes the field or issues an attach
  command for that terminal: a non-empty session id is set at most once, and after it the
  task is never attached again.
\<close>

theorem attach_latch_is_idempotent:
  assumes "a < allocated w" and "truthy (remoteTerminal (widgets w a))"
  shows "remoteTerminal (widgets (run env inputs w) a) = remoteTerminal (widgets w a) \<and>
    appends (\<lambda>e. \<not> attaches a e) w (run env inputs w)"
proof -
  have l: "latched a w"
    using assms by (simp add: latched_def)
  show ?thesis
    using latched_keeps [OF l evolves_run] latched_run [OF l] by simp
qed

text \<open>
  The theorem at the attached world: the running task is pushed twice more, the second
  time with another session id; the field keeps its value and nothing is appended to the
  trace.
\<close>

theorem attach_latch_is_idempotent_witness:
  "0 < allocated attached_world \<and> truthy (remoteTerminal (widgets attached_world 0)) \<and>
   remoteTerminal (widgets (run quiet [Change [build_task], Change [build_task\<lparr>terminal := Some ''r9''\<rparr>]]
      attached_world) 0) = Some ''r1'' \<and>
   appended attached_world (run quiet [Change [build_task], Change [build_task\<lparr>terminal := Some ''r9''\<rparr>]]
      attached_world) = []"
  using attach_latch_is_idempotent [of 0 attached_world quiet
      "[Change [build_task], Change [build_task\<lparr>terminal := Some ''r9''\<rparr>]]"]
  by (simp add: more_defs appended_def)

section \<open>Placement\<close>






section \<open>Creation and attachment in the bootstrap pass\<close>

lemma same_latches_refl [simp]: "same_latches w w"
  by (simp add: same_latches_def)











































section \<open>The passes are serialized\<close>

lemma begun_append [simp]: "begun (h @ h') = begun h @ begun h'"
  by (induction h rule: begun.induct) simp_all

lemma in_flight_snoc [simp]: "in_flight (h @ [m]) = track m (in_flight h)"
  by (simp add: in_flight_def)

lemma waiting_append [simp]: "waiting (ls @ ls') = waiting ls @ waiting ls'"
  by (simp add: waiting_def)

lemma linked_bounds:
  "linked c ls z \<Longrightarrow> c \<le> z \<and> (\<forall>x\<in>set ls. c \<le> fst x \<and> fst x < snd (snd x) \<and> snd (snd x) \<le> z)"
  by (induction c ls z rule: linked.induct) fastforce+

lemma linked_snoc:
  "linked c ls z \<Longrightarrow> z < q \<Longrightarrow> linked c (ls @ [(z, t, q)]) q"
  by (induction c ls z rule: linked.induct) auto

lemma start_serialized: "serialized (onDidInitializeLayout fetched w)"
proof -
  have "in_pass 1 (onDidInitializeLayout fetched w)"
    unfolding in_pass_def
    by (rule exI [of _ 0], rule exI [of _ "Init fetched"], rule exI [of _ "[]"],
        rule exI [of _ "[]"])
       (auto simp: onDidInitializeLayout_def call_def new_promise_def register_def chain_def
         handler_of_def waiting_def in_flight_def less_Suc_eq)
  then show ?thesis
    unfolding serialized_def by blast
qed

lemma linked_tail:
  "linked c ls z \<Longrightarrow> z = c \<or> z \<in> (\<lambda>x. snd (snd x)) ` set ls"
  by (induction c ls z rule: linked.induct) force+

lemma tail_pending:
  assumes "chain c ls s" and "promises s ! c = None"
  shows "promises s ! pendingUpdates s = None"
  using assms linked_tail [of c ls "pendingUpdates s"] by (auto simp: chain_def)

lemma chain_pushed:
  assumes "chain c ls s"
  shows "chain c (ls @ [(pendingUpdates s, tasks, length (promises s))])
     (s\<lparr>promises := promises s @ [None], reactions := rs,
        pendingUpdates := length (promises s), submitted := sub\<rparr>)"
proof -
  have l: "linked c ls (pendingUpdates s)" and n: "pendingUpdates s < length (promises s)"
    using assms by (simp_all add: chain_def)
  have b: "\<forall>x\<in>set ls. snd (snd x) < length (promises s)"
    using linked_bounds [OF l] n by fastforce
  have "linked c (ls @ [(pendingUpdates s, tasks, length (promises s))]) (length (promises s))"
    using l n by (rule linked_snoc)
  then show ?thesis
    using assms b by (auto simp: chain_def nth_append)
qed

lemma onDidChange_pending:
  assumes "pendingUpdates s < length (promises s)" and "promises s ! pendingUpdates s = None"
  shows "onDidChange tasks s =
     s\<lparr>promises := promises s @ [None],
       reactions := reactions s @ [(pendingUpdates s, ThenUpdate tasks, length (promises s))],
       pendingUpdates := length (promises s), submitted := submitted s @ [Update tasks]\<rparr>"
  using assms by (simp add: onDidChange_def new_promise_def register_def nth_append)

lemma pushed_in_pass:
  assumes "in_pass c s"
  shows "in_pass c (onDidChange tasks s)"
proof -
  obtain p j ls1 ls2 where ch: "chain c (ls1 @ ls2) s"
    and run: "running s = [(p, j)]" "microtasks s = []"
    and re: "reactions s = map unlink ls1 @ (p, handler_of j, c) # map unlink ls2"
    and p: "p < length (promises s)" "promises s ! p = None" "promises s ! c = None" "p \<noteq> c"
      "p \<notin> (\<lambda>x. snd (snd x)) ` set (ls1 @ ls2)" "\<forall>fetched. j = Init fetched \<longrightarrow> p = 0"
    and h: "in_flight (history s) = Some (Some j)"
      "submitted s = begun (history s) @ waiting (ls1 @ ls2)"
    using assms unfolding in_pass_def by blast
  let ?n = "length (promises s)"
  let ?ls2 = "ls2 @ [(pendingUpdates s, tasks, ?n)]"
  have pend: "pendingUpdates s < ?n" "promises s ! pendingUpdates s = None"
    using ch tail_pending [OF ch p(3)] by (simp_all add: chain_def)
  have eq: "onDidChange tasks s =
     s\<lparr>promises := promises s @ [None],
       reactions := reactions s @ [(pendingUpdates s, ThenUpdate tasks, ?n)],
       pendingUpdates := ?n, submitted := submitted s @ [Update tasks]\<rparr>"
    using pend by (rule onDidChange_pending)
  have ch': "chain c (ls1 @ ?ls2) (onDidChange tasks s)"
    using chain_pushed [OF ch, of tasks] eq by simp
  have c: "c < ?n"
    using ch linked_bounds [of c "ls1 @ ls2" "pendingUpdates s"] by (simp add: chain_def)
  show ?thesis
    unfolding in_pass_def
    apply (rule exI [of _ p], rule exI [of _ j], rule exI [of _ ls1], rule exI [of _ ?ls2])
    using ch' run re p h c
    by (auto simp: eq nth_append unlink_def waiting_def)
qed

lemma pushed_settling:
  assumes "settling c s"
  shows "settling c (onDidChange tasks s)"
proof -
  obtain ls r out where ch: "chain c ls s"
    and run: "running s = []" "reactions s = map unlink ls" "microtasks s = [(r, c, out)]"
      "r = CatchLog \<or> r = Adopt \<and> out = Fulfilled"
    and p: "promises s ! c = None"
    and h: "in_flight (history s) = Some None" "submitted s = begun (history s) @ waiting ls"
    using assms unfolding settling_def by blast
  let ?n = "length (promises s)"
  let ?ls = "ls @ [(pendingUpdates s, tasks, ?n)]"
  have pend: "pendingUpdates s < ?n" "promises s ! pendingUpdates s = None"
    using ch tail_pending [OF ch p] by (simp_all add: chain_def)
  have eq: "onDidChange tasks s =
     s\<lparr>promises := promises s @ [None],
       reactions := reactions s @ [(pendingUpdates s, ThenUpdate tasks, ?n)],
       pendingUpdates := ?n, submitted := submitted s @ [Update tasks]\<rparr>"
    using pend by (rule onDidChange_pending)
  have ch': "chain c ?ls (onDidChange tasks s)"
    using chain_pushed [OF ch, of tasks] eq by simp
  have c: "c < ?n"
    using ch linked_bounds [of c ls "pendingUpdates s"] by (simp add: chain_def)
  show ?thesis
    unfolding settling_def
    apply (rule exI [of _ ?ls], rule exI [of _ r], rule exI [of _ out])
    using ch' run p h c
    by (auto simp: eq nth_append unlink_def waiting_def)
qed

lemma pushed_starting:
  assumes "starting c s"
  shows "starting c (onDidChange tasks s)"
proof -
  obtain ls t where ch: "chain c ls s"
    and run: "running s = []" "reactions s = map unlink ls"
      "microtasks s = [(ThenUpdate t, c, Fulfilled)]"
    and p: "promises s ! c = None"
    and h: "in_flight (history s) = Some None"
      "submitted s = begun (history s) @ Update t # waiting ls"
    using assms unfolding starting_def by blast
  let ?n = "length (promises s)"
  let ?ls = "ls @ [(pendingUpdates s, tasks, ?n)]"
  have pend: "pendingUpdates s < ?n" "promises s ! pendingUpdates s = None"
    using ch tail_pending [OF ch p] by (simp_all add: chain_def)
  have eq: "onDidChange tasks s =
     s\<lparr>promises := promises s @ [None],
       reactions := reactions s @ [(pendingUpdates s, ThenUpdate tasks, ?n)],
       pendingUpdates := ?n, submitted := submitted s @ [Update tasks]\<rparr>"
    using pend by (rule onDidChange_pending)
  have ch': "chain c ?ls (onDidChange tasks s)"
    using chain_pushed [OF ch, of tasks] eq by simp
  have c: "c < ?n"
    using ch linked_bounds [of c ls "pendingUpdates s"] by (simp add: chain_def)
  show ?thesis
    unfolding starting_def
    apply (rule exI [of _ ?ls], rule exI [of _ t])
    using ch' run p h c
    by (auto simp: eq nth_append unlink_def waiting_def)
qed

lemma pushed_idle:
  assumes "idle s"
  shows "starting (length (promises s)) (onDidChange tasks s)"
proof -
  have eq: "onDidChange tasks s =
     s\<lparr>promises := promises s @ [None],
       microtasks := [(ThenUpdate tasks, length (promises s), Fulfilled)],
       pendingUpdates := length (promises s), submitted := submitted s @ [Update tasks]\<rparr>"
    using assms
    by (simp add: idle_def chain_def onDidChange_def new_promise_def register_def nth_append)
  show ?thesis
    unfolding starting_def
    apply (rule exI [of _ "[]"], rule exI [of _ tasks])
    using assms
    by (auto simp: eq idle_def chain_def nth_append waiting_def)
qed

lemma pushed_serialized: "serialized s \<Longrightarrow> serialized (onDidChange tasks s)"
  unfolding serialized_def
  using pushed_in_pass pushed_settling pushed_starting pushed_idle by blast

lemma linked_sources:
  "linked c ls z \<Longrightarrow> fst ` set ls \<subseteq> insert c ((\<lambda>x. snd (snd x)) ` set ls)"
  by (induction c ls z rule: linked.induct) force+

lemma filter_unlink_none:
  "p \<notin> fst ` set ls \<Longrightarrow> filter (\<lambda>x. fst x = p) (map unlink ls) = []"
  by (induction ls) (auto simp: unlink_def)

lemma filter_unlink_all:
  "p \<notin> fst ` set ls \<Longrightarrow> filter (\<lambda>x. fst x \<noteq> p) (map unlink ls) = map unlink ls"
  by (induction ls) (auto simp: unlink_def)

lemma body_outcome:
  "body env (Update tasks) w = (r, w') \<Longrightarrow> r = None"
  using updateTerminals_never_rejects [of env tasks w] by (simp add: body_def)

lemma completes_in_pass:
  assumes "in_pass c s"
  shows "in_pass c (completes env p' s) \<or> settling c (completes env p' s)"
proof -
  obtain p j ls1 ls2 where ch: "chain c (ls1 @ ls2) s"
    and run: "running s = [(p, j)]" "microtasks s = []"
    and re: "reactions s = map unlink ls1 @ (p, handler_of j, c) # map unlink ls2"
    and p: "p < length (promises s)" "promises s ! p = None" "promises s ! c = None" "p \<noteq> c"
      "p \<notin> (\<lambda>x. snd (snd x)) ` set (ls1 @ ls2)" "\<forall>fetched. j = Init fetched \<longrightarrow> p = 0"
    and h: "in_flight (history s) = Some (Some j)"
      "submitted s = begun (history s) @ waiting (ls1 @ ls2)"
    using assms unfolding in_pass_def by blast
  show ?thesis
  proof (cases "p' = p")
    case False
    then have "completes env p' s = s"
      using run by (simp add: completes_def)
    then show ?thesis using assms by simp
  next
    case True
    obtain r w where b: "body env j (the_world s) = (r, w)"
      by (cases "body env j (the_world s)")
    let ?out = "case r of None \<Rightarrow> Fulfilled | Some e \<Rightarrow> Rejected e"
    have l: "linked c (ls1 @ ls2) (pendingUpdates s)"
      using ch by (simp add: chain_def)
    have src: "p \<notin> fst ` set (ls1 @ ls2)"
      using linked_sources [OF l] p(4,5) by auto
    then have src1: "p \<notin> fst ` set ls1" and src2: "p \<notin> fst ` set ls2"
      by auto
    have eq: "completes env p' s =
       s\<lparr>the_world := w, running := [], history := history s @ [End j],
         promises := (promises s)[p := Some ?out],
         microtasks := [(handler_of j, c, ?out)],
         reactions := map unlink (ls1 @ ls2)\<rparr>"
      using True run re b src1 src2
      by (simp add: completes_def settle_def filter_unlink_none filter_unlink_all)
    have out: "handler_of j = CatchLog \<or> handler_of j = Adopt \<and> ?out = Fulfilled"
    proof (cases j)
      case (Init fetched)
      then show ?thesis by (simp add: handler_of_def)
    next
      case (Update tasks)
      then have "r = None"
        using body_outcome [of env tasks "the_world s" r w] b by simp
      then show ?thesis
        using Update by (simp add: handler_of_def)
    qed
    have rej: "?out = Rejected e \<Longrightarrow> p = 0" for e
      using out p(6) by (cases j) (auto simp: handler_of_def)
    have ch': "chain c (ls1 @ ls2) (completes env p' s)"
      using ch p rej unfolding chain_def eq
      by (auto simp: nth_list_update)
    have "settling c (completes env p' s)"
      unfolding settling_def
      apply (rule exI [of _ "ls1 @ ls2"], rule exI [of _ "handler_of j"], rule exI [of _ ?out])
      using ch' out p h
      by (auto simp: eq nth_list_update)
    then show ?thesis ..
  qed
qed

lemma completes_not_running: "running s = [] \<Longrightarrow> completes env p s = s"
  by (simp add: completes_def)

lemma completes_serialized: "serialized s \<Longrightarrow> serialized (completes env p s)"
proof -
  assume "serialized s"
  then consider c where "in_pass c s" | "running s = []"
    unfolding serialized_def settling_def starting_def idle_def by blast
  then show ?thesis
  proof cases
    case 1
    then show ?thesis
      using completes_in_pass [of c s env p] unfolding serialized_def by blast
  next
    case 2
    then show ?thesis
      using \<open>serialized s\<close> by (simp add: completes_not_running)
  qed
qed

lemma unlink_apply: "unlink (src, t, q) = (src, ThenUpdate t, q)"
  by (simp add: unlink_def)

lemma settle_chain_head:
  assumes ch: "chain c ls s" and run: "running s = []" "reactions s = map unlink ls"
    "microtasks s = []" and p: "promises s ! c = None"
    and h: "in_flight (history s) = Some None" "submitted s = begun (history s) @ waiting ls"
  shows "idle (settle c Fulfilled s) \<or> (\<exists>q. starting q (settle c Fulfilled s))"
proof (cases ls)
  case Nil
  then have c: "c = pendingUpdates s" "c < length (promises s)"
    using ch by (simp_all add: chain_def)
  have "idle (settle c Fulfilled s)"
    using ch run h Nil c
    by (auto simp: idle_def settle_def chain_def waiting_def nth_list_update)
  then show ?thesis ..
next
  case (Cons x rest)
  obtain src t q where x: "x = (src, t, q)"
    by (cases x)
  have l: "src = c" "c < q" "linked q rest (pendingUpdates s)"
    using ch Cons x by (simp_all add: chain_def)
  have b: "\<forall>y\<in>set rest. q \<le> fst y \<and> fst y < snd (snd y)"
    using linked_bounds [OF l(3)] by blast
  then have src: "c \<notin> fst ` set rest" and tgt: "\<forall>y\<in>set rest. snd (snd y) \<noteq> c"
    using l(2) by fastforce+
  have eq: "settle c Fulfilled s =
     s\<lparr>promises := (promises s)[c := Some Fulfilled],
       microtasks := [(ThenUpdate t, q, Fulfilled)], reactions := map unlink rest\<rparr>"
    using run Cons x l(1) src
    by (simp add: settle_def filter_unlink_none filter_unlink_all unlink_apply)
  have qn: "promises s ! q = None"
    using ch Cons x by (simp add: chain_def)
  have cn: "c < length (promises s)"
    using linked_bounds [OF l(3)] l(2) ch by (simp add: chain_def)
  have ch': "chain q rest (settle c Fulfilled s)"
    using ch Cons x l tgt cn unfolding chain_def eq
    by (auto simp: nth_list_update)
  have "starting q (settle c Fulfilled s)"
    unfolding starting_def
    apply (rule exI [of _ rest], rule exI [of _ t])
    using ch' run h Cons x l qn cn
    by (auto simp: eq waiting_def nth_list_update)
  then show ?thesis by blast
qed

lemma microtask_settling:
  assumes "settling c s"
  shows "idle (microtask s) \<or> (\<exists>q. starting q (microtask s))"
proof -
  obtain ls r out where ch: "chain c ls s"
    and run: "running s = []" "reactions s = map unlink ls" "microtasks s = [(r, c, out)]"
      "r = CatchLog \<or> r = Adopt \<and> out = Fulfilled"
    and p: "promises s ! c = None"
    and h: "in_flight (history s) = Some None" "submitted s = begun (history s) @ waiting ls"
    using assms unfolding settling_def by blast
  let ?s1 = "s\<lparr>microtasks := []\<rparr>"
  have handled: "idle (settle c Fulfilled (?s1\<lparr>the_world := w\<rparr>))
      \<or> (\<exists>q. starting q (settle c Fulfilled (?s1\<lparr>the_world := w\<rparr>)))" for w
    using ch run p h by (intro settle_chain_head) (simp_all add: chain_def)
  have "\<exists>w. microtask s = settle c Fulfilled (?s1\<lparr>the_world := w\<rparr>)"
  proof (cases "r = CatchLog")
    case True
    show ?thesis
    proof (cases out)
      case Fulfilled
      then have "microtask s = settle c Fulfilled (?s1\<lparr>the_world := the_world s\<rparr>)"
        using True run by (simp add: microtask_def)
      then show ?thesis ..
    next
      case (Rejected e)
      then have "microtask s = settle c Fulfilled (?s1\<lparr>the_world :=
          console_error ''Failed to initizalize Gitpod task terminals:'' (Some e) (the_world s)\<rparr>)"
        using True run by (simp add: microtask_def)
      then show ?thesis ..
    qed
  next
    case False
    then have "microtask s = settle c Fulfilled (?s1\<lparr>the_world := the_world s\<rparr>)"
      using run by (auto simp: microtask_def)
    then show ?thesis ..
  qed
  then show ?thesis
    using handled by metis
qed

lemma microtask_starting:
  assumes "starting c s"
  shows "in_pass c (microtask s)"
proof -
  obtain ls t where ch: "chain c ls s"
    and run: "running s = []" "reactions s = map unlink ls"
      "microtasks s = [(ThenUpdate t, c, Fulfilled)]"
    and p: "promises s ! c = None"
    and h: "in_flight (history s) = Some None"
      "submitted s = begun (history s) @ Update t # waiting ls"
    using assms unfolding starting_def by blast
  let ?n = "length (promises s)"
  have eq: "microtask s =
     s\<lparr>microtasks := [], promises := promises s @ [None], running := [(?n, Update t)],
       history := history s @ [Begin (Update t)],
       reactions := map unlink ls @ [(?n, Adopt, c)]\<rparr>"
    using run by (simp add: microtask_def call_def new_promise_def register_def)
  have l: "linked c ls (pendingUpdates s)" and n: "pendingUpdates s < ?n"
    using ch by (simp_all add: chain_def)
  have b: "c < ?n" "\<forall>x\<in>set ls. snd (snd x) < ?n"
    using linked_bounds [OF l] n by fastforce+
  have ch': "chain c (ls @ []) (microtask s)"
    using ch b unfolding chain_def eq by (auto simp: nth_append)
  show ?thesis
    unfolding in_pass_def
    apply (rule exI [of _ ?n], rule exI [of _ "Update t"], rule exI [of _ ls], rule exI [of _ "[]"])
    using ch' run p h b
    by (auto simp: eq nth_append handler_of_def)
qed

lemma microtask_none: "microtasks s = [] \<Longrightarrow> microtask s = s"
  by (simp add: microtask_def)

lemma microtask_serialized: "serialized s \<Longrightarrow> serialized (microtask s)"
proof -
  assume s: "serialized s"
  then consider c where "settling c s" | c where "starting c s" | "microtasks s = []"
    unfolding serialized_def in_pass_def idle_def by blast
  then show ?thesis
  proof cases
    case 1
    then show ?thesis
      using microtask_settling [of c s] unfolding serialized_def by blast
  next
    case 2
    then show ?thesis
      using microtask_starting [of c s] unfolding serialized_def by blast
  next
    case 3
    then show ?thesis
      using s by (simp add: microtask_none)
  qed
qed

lemma occur_serialized: "serialized s \<Longrightarrow> serialized (occur env occ s)"
  by (cases occ) (simp_all add: pushed_serialized completes_serialized microtask_serialized)

lemma exec_serialized: "serialized s \<Longrightarrow> serialized (exec env occs s)"
  unfolding exec_def by (induction occs arbitrary: s) (simp_all add: occur_serialized)

lemma submitted_settle [simp]: "submitted (settle p out s) = submitted s"
  by (simp add: settle_def)

lemma submitted_register [simp]: "submitted (register p r q s) = submitted s"
  by (simp add: register_def split: option.splits)

lemma submitted_occur: "submitted (occur env occ s) = submitted s @ pushes occ"
proof (cases occ)
  case (Pushed tasks)
  then show ?thesis
    by (simp add: onDidChange_def new_promise_def)
next
  case (Completed p)
  then show ?thesis
    by (simp add: completes_def split_beta split: option.splits)
next
  case Microtask
  then show ?thesis
    by (simp add: microtask_def call_def new_promise_def Let_def
        split: list.splits reaction.splits outcome.splits)
qed

lemma submitted_exec:
  "submitted (exec env occs s) = submitted s @ concat (map pushes occs)"
  unfolding exec_def by (induction occs arbitrary: s) (simp_all add: submitted_occur)

lemma submitted_start [simp]: "submitted (onDidInitializeLayout fetched w) = [Init fetched]"
  by (simp add: onDidInitializeLayout_def call_def new_promise_def)

lemma serialized_tail:
  assumes "serialized s"
  shows "0 < pendingUpdates s \<and> pendingUpdates s < length (promises s)"
proof -
  have "0 < pendingUpdates s \<and> pendingUpdates s < length (promises s)" if "chain c ls s" for c ls
    using that linked_bounds [of c ls "pendingUpdates s"] by (auto simp: chain_def)
  then show ?thesis
    using assms unfolding serialized_def in_pass_def settling_def starting_def idle_def by blast
qed

lemma serialized_no_rejection:
  assumes "serialized s"
  shows "promises s ! pendingUpdates s \<noteq> Some (Rejected e)"
proof -
  have "\<forall>q<length (promises s). \<forall>e. promises s ! q = Some (Rejected e) \<longrightarrow> q = 0"
    using assms unfolding serialized_def in_pass_def settling_def starting_def idle_def chain_def
    by blast
  then show ?thesis
    using serialized_tail [OF assms] by auto
qed

lemma serialized_history:
  assumes "serialized s"
  shows "in_flight (history s) \<noteq> None \<and> length (running s) \<le> 1 \<and>
     (\<exists>later. submitted s = begun (history s) @ later) \<and>
     (running s = [] \<and> microtasks s = [] \<longrightarrow>
        begun (history s) = submitted s \<and> in_flight (history s) = Some None)"
  using assms unfolding serialized_def in_pass_def settling_def starting_def idle_def
  by (elim disjE exE conjE) simp_all

lemma filter_is_then_unlink [simp]: "filter is_then (map unlink ls) = map unlink ls"
  by (induction ls) (auto simp: unlink_def)

lemma is_then_handler [simp]: "\<not> is_then (p, handler_of j, c)"
  by (cases j) (simp_all add: handler_of_def)

lemma work_in_pass:
  assumes "in_pass c s"
  shows "\<exists>p. pending_work (completes env p s) < pending_work s"
proof -
  obtain p j ls1 ls2 where ch: "chain c (ls1 @ ls2) s"
    and run: "running s = [(p, j)]" "microtasks s = []"
    and re: "reactions s = map unlink ls1 @ (p, handler_of j, c) # map unlink ls2"
    and p: "p \<noteq> c" "p \<notin> (\<lambda>x. snd (snd x)) ` set (ls1 @ ls2)"
    using assms unfolding in_pass_def by blast
  obtain r w where b: "body env j (the_world s) = (r, w)"
    by (cases "body env j (the_world s)")
  have l: "linked c (ls1 @ ls2) (pendingUpdates s)"
    using ch by (simp add: chain_def)
  have "p \<notin> fst ` set (ls1 @ ls2)"
    using linked_sources [OF l] p by auto
  then have src1: "p \<notin> fst ` set ls1" and src2: "p \<notin> fst ` set ls2"
    by auto
  have "running (completes env p s) = []"
    and "reactions (completes env p s) = map unlink (ls1 @ ls2)"
    and "weight (microtasks (completes env p s)) = 1"
    using run re b src1 src2
    by (cases j; simp add: completes_def settle_def filter_unlink_none filter_unlink_all
          handler_of_def)+
  then have "pending_work (completes env p s) < pending_work s"
    using run re by (simp add: pending_work_def)
  then show ?thesis ..
qed

lemma work_settle:
  assumes ch: "chain c ls s" and run: "running s = []" "reactions s = map unlink ls"
    "microtasks s = []"
  shows "pending_work (settle c Fulfilled s) < 3 * length ls + 1"
proof (cases ls)
  case Nil
  then show ?thesis
    using run by (simp add: pending_work_def settle_def)
next
  case (Cons x rest)
  obtain src t q where x: "x = (src, t, q)"
    by (cases x)
  have l: "src = c" "c < q" "linked q rest (pendingUpdates s)"
    using ch Cons x by (simp_all add: chain_def)
  have "\<forall>y\<in>set rest. q \<le> fst y"
    using linked_bounds [OF l(3)] by blast
  then have src: "c \<notin> fst ` set rest"
    using l(2) by fastforce
  have "running (settle c Fulfilled s) = []"
    and "microtasks (settle c Fulfilled s) = [(ThenUpdate t, q, Fulfilled)]"
    and "reactions (settle c Fulfilled s) = map unlink rest"
    using run Cons x l(1) src
    by (simp_all add: settle_def filter_unlink_none filter_unlink_all unlink_apply)
  then show ?thesis
    using Cons by (simp add: pending_work_def)
qed

lemma work_settling:
  assumes "settling c s"
  shows "pending_work (microtask s) < pending_work s"
proof -
  obtain ls r out where ch: "chain c ls s"
    and run: "running s = []" "reactions s = map unlink ls" "microtasks s = [(r, c, out)]"
      "r = CatchLog \<or> r = Adopt \<and> out = Fulfilled"
    using assms unfolding settling_def by blast
  let ?s1 = "s\<lparr>microtasks := []\<rparr>"
  have settled: "pending_work (settle c Fulfilled (?s1\<lparr>the_world := w\<rparr>)) < 3 * length ls + 1" for w
    using ch run by (intro work_settle) (simp_all add: chain_def)
  have "\<exists>w. microtask s = settle c Fulfilled (?s1\<lparr>the_world := w\<rparr>)"
  proof (cases "r = CatchLog")
    case True
    show ?thesis
    proof (cases out)
      case Fulfilled
      then have "microtask s = settle c Fulfilled (?s1\<lparr>the_world := the_world s\<rparr>)"
        using True run by (simp add: microtask_def)
      then show ?thesis ..
    next
      case (Rejected e)
      then have "microtask s = settle c Fulfilled (?s1\<lparr>the_world :=
          console_error ''Failed to initizalize Gitpod task terminals:'' (Some e) (the_world s)\<rparr>)"
        using True run by (simp add: microtask_def)
      then show ?thesis ..
    qed
  next
    case False
    then have "microtask s = settle c Fulfilled (?s1\<lparr>the_world := the_world s\<rparr>)"
      using run by (auto simp: microtask_def)
    then show ?thesis ..
  qed
  then have "pending_work (microtask s) < 3 * length ls + 1"
    using settled by metis
  moreover have "pending_work s = 3 * length ls + 1"
    using run by (auto simp: pending_work_def)
  ultimately show ?thesis
    by simp
qed

lemma work_starting:
  assumes "starting c s"
  shows "pending_work (microtask s) < pending_work s"
proof -
  obtain ls t where run: "running s = []" "reactions s = map unlink ls"
      "microtasks s = [(ThenUpdate t, c, Fulfilled)]"
    using assms unfolding starting_def by blast
  have "running (microtask s) = [(length (promises s), Update t)]"
    and "reactions (microtask s) = map unlink ls @ [(length (promises s), Adopt, c)]"
    using run by (simp_all add: microtask_def call_def new_promise_def register_def)
  then show ?thesis
    using run by (simp add: pending_work_def)
qed

lemma advance:
  assumes "serialized s" and "running s \<noteq> [] \<or> microtasks s \<noteq> []"
  shows "\<exists>occ. pushes occ = [] \<and> pending_work (occur env occ s) < pending_work s"
proof -
  consider c where "in_pass c s" | c where "settling c s" | c where "starting c s"
    using assms unfolding serialized_def idle_def by blast
  then show ?thesis
  proof cases
    case 1
    then obtain p where "pending_work (occur env (Completed p) s) < pending_work s"
      using work_in_pass [of c s env] by auto
    then show ?thesis
      by (intro exI [of _ "Completed p"]) simp
  next
    case 2
    then have "pending_work (occur env Microtask s) < pending_work s"
      using work_settling by simp
    then show ?thesis
      by (intro exI [of _ Microtask]) simp
  next
    case 3
    then have "pending_work (occur env Microtask s) < pending_work s"
      using work_starting by simp
    then show ?thesis
      by (intro exI [of _ Microtask]) simp
  qed
qed

lemma progress:
  assumes "serialized s"
  shows "\<exists>rest. concat (map pushes rest) = [] \<and>
     running (exec env rest s) = [] \<and> microtasks (exec env rest s) = []"
  using assms
proof (induction "pending_work s" arbitrary: s rule: less_induct)
  case less
  show ?case
  proof (cases "running s = [] \<and> microtasks s = []")
    case True
    then show ?thesis
      by (intro exI [of _ "[]"]) (simp add: exec_def)
  next
    case False
    then obtain occ where occ: "pushes occ = []"
      "pending_work (occur env occ s) < pending_work s"
      using advance [OF less.prems, of env] by blast
    have "serialized (occur env occ s)"
      using less.prems by (rule occur_serialized)
    then obtain rest where rest: "concat (map pushes rest) = []"
      "running (exec env rest (occur env occ s)) = []"
      "microtasks (exec env rest (occur env occ s)) = []"
      using less.hyps [OF occ(2)] by blast
    show ?thesis
      using occ(1) rest by (intro exI [of _ "occ # rest"]) (simp add: exec_def)
  qed
qed

lemma exec_append: "exec env (occs @ rest) s = exec env rest (exec env occs s)"
  by (simp add: exec_def)

text \<open>
  C1. After \<^verbatim>\<open>onDidInitializeLayout\<close>, whatever is pushed and in whatever order passes
  complete and microtasks run: the history is a sequence of begin and end pairs, so a
  pass begins only when no pass is in flight; at most one pass is running; the passes
  submitted are the bootstrap pass followed by the pushed lists in the order of their
  arrival, and the passes begun are an initial part of them, in that order; the tail of
  the chain, \<^verbatim>\<open>pendingUpdates\<close>, is never rejected; when no pass is running and no
  microtask is queued, every submitted pass has begun and ended; and that state is always
  reached by letting passes complete and microtasks run, so no submitted pass is skipped.
\<close>

theorem passes_are_serialized:
  "in_flight (history (exec env occs (onDidInitializeLayout fetched w))) \<noteq> None \<and>
   length (running (exec env occs (onDidInitializeLayout fetched w))) \<le> 1 \<and>
   submitted (exec env occs (onDidInitializeLayout fetched w))
     = Init fetched # concat (map pushes occs) \<and>
   (\<exists>later. submitted (exec env occs (onDidInitializeLayout fetched w))
      = begun (history (exec env occs (onDidInitializeLayout fetched w))) @ later) \<and>
   (\<forall>e. promises (exec env occs (onDidInitializeLayout fetched w))
          ! pendingUpdates (exec env occs (onDidInitializeLayout fetched w))
        \<noteq> Some (Rejected e)) \<and>
   (running (exec env occs (onDidInitializeLayout fetched w)) = [] \<and>
    microtasks (exec env occs (onDidInitializeLayout fetched w)) = [] \<longrightarrow>
      begun (history (exec env occs (onDidInitializeLayout fetched w)))
        = submitted (exec env occs (onDidInitializeLayout fetched w)) \<and>
      in_flight (history (exec env occs (onDidInitializeLayout fetched w))) = Some None) \<and>
   (\<exists>rest. concat (map pushes rest) = [] \<and>
      begun (history (exec env (occs @ rest) (onDidInitializeLayout fetched w)))
        = submitted (exec env occs (onDidInitializeLayout fetched w)) \<and>
      in_flight (history (exec env (occs @ rest) (onDidInitializeLayout fetched w))) = Some None)"
proof -
  let ?s = "exec env occs (onDidInitializeLayout fetched w)"
  have inv: "serialized ?s"
    using start_serialized by (rule exec_serialized)
  obtain rest where rest: "concat (map pushes rest) = []"
    "running (exec env rest ?s) = []" "microtasks (exec env rest ?s) = []"
    using progress [OF inv, of env] by blast
  have inv': "serialized (exec env rest ?s)"
    using inv by (rule exec_serialized)
  have "begun (history (exec env rest ?s)) = submitted (exec env rest ?s)"
    and fin: "in_flight (history (exec env rest ?s)) = Some None"
    using serialized_history [OF inv'] rest by simp_all
  then have "begun (history (exec env rest ?s)) = submitted ?s"
    using submitted_exec [of env rest ?s] rest(1) by simp
  then have live: "\<exists>rest. concat (map pushes rest) = [] \<and>
      begun (history (exec env (occs @ rest) (onDidInitializeLayout fetched w))) = submitted ?s \<and>
      in_flight (history (exec env (occs @ rest) (onDidInitializeLayout fetched w))) = Some None"
    using rest(1) fin by (intro exI [of _ rest]) (simp add: exec_append)
  show ?thesis
    using serialized_history [OF inv] serialized_no_rejection [OF inv]
      submitted_exec [of env occs "onDidInitializeLayout fetched w"] live
    by simp
qed

lemmas sched_defs = exec_def onDidInitializeLayout_def onDidChange_def completes_def
  microtask_def call_def register_def settle_def new_promise_def body_def in_flight_def
  sample_occurrences_def

text \<open>
  The theorem at a run in which a list is pushed during the bootstrap pass: the update
  pass begins after the bootstrap pass has ended, and in the end all promises are
  fulfilled.
\<close>

theorem passes_are_serialized_witness:
  "running (exec quiet sample_occurrences (onDidInitializeLayout (Inr []) initial)) = [] \<and>
   microtasks (exec quiet sample_occurrences (onDidInitializeLayout (Inr []) initial)) = [] \<and>
   history (exec quiet sample_occurrences (onDidInitializeLayout (Inr []) initial)) =
     [Begin (Init (Inr [])), End (Init (Inr [])),
      Begin (Update [build_task]), End (Update [build_task])] \<and>
   submitted (exec quiet sample_occurrences (onDidInitializeLayout (Inr []) initial)) =
     [Init (Inr []), Update [build_task]] \<and>
   promises (exec quiet sample_occurrences (onDidInitializeLayout (Inr []) initial)) =
     [Some Fulfilled, Some Fulfilled, Some Fulfilled, Some Fulfilled] \<and>
   in_flight (history (exec quiet sample_occurrences (onDidInitializeLayout (Inr []) initial)))
     = Some None"
  using passes_are_serialized [of quiet sample_occurrences "Inr []" initial]
  by (simp add: sched_defs step_defs)

end
